theory Spec2Isabelle
  imports Main "HOL-Library.AList"
begin

section \<open>JavaScript values\<close>

text \<open>
  The daemon receives its arguments as JSON request bodies, so every field of a request may
  hold any JavaScript value. Primitive values are modelled by their content; an object or an
  array is modelled by its reference (\<open>JRef\<close>), since the registry never looks inside one and
  a \<^verbatim>\<open>Map\<close> key or \<^verbatim>\<open>===\<close> compares objects by reference. A number is modelled by its
  integer value (ports, process ids and the millisecond timestamps of \<^verbatim>\<open>Date.now()\<close>) or is
  \<^verbatim>\<open>NaN\<close>; how a number prints is left to a parameter. The key equality of \<^verbatim>\<open>Map\<close> is HOL
  equality, and so is \<^verbatim>\<open>===\<close> wherever the registry applies it: both of its uses are guarded
  by the truth of an operand, which excludes \<^verbatim>\<open>NaN\<close>.
\<close>

datatype jsval = JUndefined | JNull | JBool bool | JNum int | JNaN | JStr string | JRef nat

text \<open>The conversion to boolean that \<^verbatim>\<open>!x\<close>, \<^verbatim>\<open>x && y\<close> and \<^verbatim>\<open>x || y\<close> apply.\<close>

fun truthy :: "jsval \<Rightarrow> bool" where
  "truthy JUndefined = False"
| "truthy JNull = False"
| "truthy (JBool b) = b"
| "truthy (JNum n) = (n \<noteq> 0)"
| "truthy JNaN = False"
| "truthy (JStr s) = (s \<noteq> [])"
| "truthy (JRef a) = True"

text \<open>\<^verbatim>\<open>typeof x === 'string'\<close> and \<^verbatim>\<open>typeof x === 'number'\<close>.\<close>

fun is_string :: "jsval \<Rightarrow> bool" where
  "is_string (JStr s) = True"
| "is_string v = False"

fun is_number :: "jsval \<Rightarrow> bool" where
  "is_number (JNum n) = True"
| "is_number JNaN = True"
| "is_number v = False"

fun str_of :: "jsval \<Rightarrow> string" where
  "str_of (JStr s) = s"
| "str_of v = []"

text \<open>
  A request body (and any other object whose fields are read) is the list of its fields.
  Reading a field that is absent gives \<^verbatim>\<open>undefined\<close>; a destructuring default
  \<^verbatim>\<open>{ x = d }\<close> replaces exactly \<^verbatim>\<open>undefined\<close>.
\<close>

type_synonym obj = "(string \<times> jsval) list"

definition fld :: "obj \<Rightarrow> string \<Rightarrow> jsval" where
  "fld b f = (case map_of b f of None \<Rightarrow> JUndefined | Some v \<Rightarrow> v)"

definition dflt :: "jsval \<Rightarrow> jsval \<Rightarrow> jsval" where
  "dflt v d = (if v = JUndefined then d else v)"

text \<open>
  What a call reads from its surroundings: \<open>clock\<close> is \<^verbatim>\<open>Date.now()\<close>, \<open>random\<close> is
  \<^verbatim>\<open>Math.floor(Math.random() * 1e6)\<close>, \<open>number_str\<close> is the string that JavaScript makes of
  a number, \<open>render\<close> is the string that it makes of the object at a reference, or \<open>None\<close>
  when that conversion throws a \<^verbatim>\<open>TypeError\<close> (as for the object \<^verbatim>\<open>{"toString": null}\<close>, whose
  \<^verbatim>\<open>toString\<close> is not callable and whose \<^verbatim>\<open>valueOf\<close> gives the object back), and \<open>fresh\<close> is
  the reference of the object that the default \<^verbatim>\<open>meta = {}\<close> allocates.
\<close>

record env =
  clock :: int
  random :: nat
  number_str :: "int \<Rightarrow> string"
  render :: "nat \<Rightarrow> string option"
  fresh :: nat

text \<open>
  The decimal digits of an integer: what JavaScript prints for an integer of magnitude below
  \<open>10\<^sup>2\<^sup>1\<close>. The examples use it for \<open>number_str\<close>.
\<close>

fun show_nat :: "nat \<Rightarrow> string" where
  "show_nat n =
     (if n < 10 then [char_of (48 + n)] else show_nat (n div 10) @ [char_of (48 + n mod 10)])"

declare show_nat.simps [simp del]

definition show_int :: "int \<Rightarrow> string" where
  "show_int i = (if i < 0 then CHR ''-'' # show_nat (nat (- i)) else show_nat (nat i))"

text \<open>
  The string a template literal \<^verbatim>\<open>${v}\<close> inserts for a value; \<open>None\<close> when the conversion
  throws.
\<close>

fun to_str :: "env \<Rightarrow> jsval \<Rightarrow> string option" where
  "to_str e JUndefined = Some ''undefined''"
| "to_str e JNull = Some ''null''"
| "to_str e (JBool b) = Some (if b then ''true'' else ''false'')"
| "to_str e (JNum n) = Some (number_str e n)"
| "to_str e JNaN = Some ''NaN''"
| "to_str e (JStr s) = Some s"
| "to_str e (JRef a) = render e a"

section \<open>The registry (class \<^verbatim>\<open>Registry\<close> of the daemon)\<close>

text \<open>
  A \<^verbatim>\<open>Map\<close> is the list of its entries in iteration (insertion) order:
  \<^verbatim>\<open>get\<close> is \<^const>\<open>map_of\<close>, \<^verbatim>\<open>set\<close> is \<^const>\<open>AList.update\<close> (an existing key keeps its
  place, a new key goes to the end) and \<^verbatim>\<open>delete\<close> is \<^const>\<open>AList.delete\<close>.
\<close>

record Instance =
  inst_id :: jsval
  inst_name :: string
  host :: jsval
  port :: jsval
  pid :: jsval
  meta :: jsval
  lastSeen :: int

type_synonym imap = "(jsval \<times> Instance) list"

record registry =
  services :: "(string \<times> imap) list"
  ttl :: int

datatype error = Error string | TypeError string

fun message :: "error \<Rightarrow> string" where
  "message (Error m) = m"
| "message (TypeError m) = m"

definition HOST :: string where
  "HOST = ''127.0.0.1''"

definition new_registry :: "int \<Rightarrow> registry" where
  "new_registry t = \<lparr>services = [], ttl = t\<rparr>"

text \<open>Keys of \<open>services\<close> are strings, so \<^verbatim>\<open>this.services.get(name)\<close> finds nothing for
  a name of another type.\<close>

definition services_get :: "registry \<Rightarrow> jsval \<Rightarrow> imap option" where
  "services_get r name = (case name of JStr n \<Rightarrow> map_of (services r) n | _ \<Rightarrow> None)"

definition ensureServiceMap :: "string \<Rightarrow> (string \<times> imap) list \<Rightarrow> (string \<times> imap) list" where
  "ensureServiceMap n svcs = (if map_of svcs n = None then svcs @ [(n, [])] else svcs)"

text \<open>
  \<^verbatim>\<open>register({ name, host = HOST, port, pid = null, id = null, meta = {} })\<close>.
  A call ends with an error thrown or an instance returned, and in both cases with a
  directory: the two checks throw before anything is stored, but the template literal that
  makes the id throws (when \<open>host\<close> does not convert to a string) after
  \<^verbatim>\<open>_ensureServiceMap\<close> has stored a \<^verbatim>\<open>Map\<close> for a new name. The value returned,
  \<^verbatim>\<open>map.get(instanceId)\<close>, is the instance just stored.
\<close>

definition register ::
  "env \<Rightarrow> registry \<Rightarrow> obj \<Rightarrow> (error \<times> registry) + (Instance \<times> registry)" where
  "register e r b =
     (let name = fld b ''name'';
          host = dflt (fld b ''host'') (JStr HOST);
          port = fld b ''port'';
          pid = dflt (fld b ''pid'') JNull;
          id = dflt (fld b ''id'') JNull;
          meta = dflt (fld b ''meta'') (JRef (fresh e))
      in if \<not> truthy name \<or> \<not> is_string name then Inl (Error ''name required'', r)
         else if \<not> truthy port \<or> \<not> is_number port
         then Inl (Error ''port required as number'', r)
         else
           let n = str_of name;
               svcs = ensureServiceMap n (services r)
           in case map_of svcs n of
                None \<Rightarrow>
                  Inl (TypeError ''Cannot read properties of undefined'', r\<lparr>services := svcs\<rparr>)
              | Some m \<Rightarrow>
                  (case (if truthy id then Some id
                         else (case to_str e host of
                                 None \<Rightarrow> None
                               | Some h \<Rightarrow>
                                   (case to_str e port of
                                      None \<Rightarrow> None
                                    | Some p \<Rightarrow>
                                        Some (JStr (h @ '':'' @ p @ '':'' @
                                                    number_str e (int (random e))))))) of
                     None \<Rightarrow>
                       Inl (TypeError ''Cannot convert object to primitive value'',
                            r\<lparr>services := svcs\<rparr>)
                   | Some instanceId \<Rightarrow>
                       let inst = \<lparr>inst_id = instanceId, inst_name = n, host = host, port = port,
                                   pid = pid, meta = meta, lastSeen = clock e\<rparr>
                       in Inr (inst,
                               r\<lparr>services := AList.update n (AList.update instanceId inst m) svcs\<rparr>)))"

text \<open>\<^verbatim>\<open>heartbeat({ name, id })\<close>: the instance found is mutated in place.\<close>

definition heartbeat :: "int \<Rightarrow> registry \<Rightarrow> obj \<Rightarrow> error + (Instance option \<times> registry)" where
  "heartbeat now r b =
     (let name = fld b ''name''; id = fld b ''id''
      in if \<not> truthy name \<or> \<not> truthy id then Inl (Error ''name and id required for heartbeat'')
         else case services_get r name of
                None \<Rightarrow> Inr (None, r)
              | Some m \<Rightarrow>
                  (case map_of m id of
                     None \<Rightarrow> Inr (None, r)
                   | Some inst \<Rightarrow>
                       let inst' = inst\<lparr>lastSeen := now\<rparr>
                       in Inr (Some inst',
                               r\<lparr>services := AList.update (str_of name) (AList.update id inst' m) (services r)\<rparr>)))"

text \<open>
  The inner \<^verbatim>\<open>Map\<close> of a service is mutated in place and then
  \<^verbatim>\<open>if (map.size === 0) this.services.delete(name)\<close>: \<open>commit n m\<close> is the directory in
  which the map stored under \<open>n\<close> has become \<open>m\<close> and that test has run.
\<close>

definition commit :: "string \<Rightarrow> imap \<Rightarrow> (string \<times> imap) list \<Rightarrow> (string \<times> imap) list" where
  "commit n m svcs = (if m = [] then AList.delete n svcs else AList.update n m svcs)"

text \<open>The fallback loop of \<^verbatim>\<open>unregister\<close> over \<^verbatim>\<open>map.entries()\<close>; the second list is the map
  being mutated.\<close>

fun unregister_loop :: "jsval \<Rightarrow> jsval \<Rightarrow> imap \<Rightarrow> imap \<Rightarrow> imap" where
  "unregister_loop h p [] m = m"
| "unregister_loop h p ((iid, inst) # es) m =
     unregister_loop h p es
       (if (truthy h \<and> host inst = h) \<or> (truthy p \<and> port inst = p) then AList.delete iid m else m)"

definition unregister :: "registry \<Rightarrow> obj \<Rightarrow> error + (bool \<times> registry)" where
  "unregister r b =
     (let name = fld b ''name''; id = fld b ''id''; h = fld b ''host''; p = fld b ''port''
      in if \<not> truthy name then Inl (Error ''name required'')
         else case services_get r name of
                None \<Rightarrow> Inr (False, r)
              | Some m \<Rightarrow>
                  if truthy id
                  then Inr (map_of m id \<noteq> None,
                            r\<lparr>services := commit (str_of name) (AList.delete id m) (services r)\<rparr>)
                  else Inr (True,
                            r\<lparr>services := commit (str_of name) (unregister_loop h p m m) (services r)\<rparr>))"

text \<open>\<^verbatim>\<open>resolve(name)\<close>: the loop keeps \<open>chosen\<close>, which starts as \<^verbatim>\<open>null\<close>.\<close>

fun resolve_loop :: "Instance option \<Rightarrow> Instance list \<Rightarrow> Instance option" where
  "resolve_loop chosen [] = chosen"
| "resolve_loop chosen (inst # rest) =
     resolve_loop
       (case chosen of
          None \<Rightarrow> Some inst
        | Some c \<Rightarrow> if lastSeen inst > lastSeen c then Some inst else Some c)
       rest"

definition resolve :: "registry \<Rightarrow> jsval \<Rightarrow> Instance option" where
  "resolve r name =
     (case services_get r name of
        None \<Rightarrow> None
      | Some m \<Rightarrow> if length m = 0 then None else resolve_loop None (map snd m))"

text \<open>
  \<^verbatim>\<open>list()\<close> copies six fields of every instance into a fresh object \<open>out\<close>, one property
  per service; the object is given by its properties, a map from names to arrays. The
  assignment \<^verbatim>\<open>out[name] = ...\<close> makes no property for the name \<^verbatim>\<open>__proto__\<close> (it sets the
  prototype of \<open>out\<close> instead).
\<close>

record listed =
  l_id :: jsval
  l_host :: jsval
  l_port :: jsval
  l_pid :: jsval
  l_meta :: jsval
  l_lastSeen :: int

definition listed_of :: "Instance \<Rightarrow> listed" where
  "listed_of i = \<lparr>l_id = inst_id i, l_host = host i, l_port = port i, l_pid = pid i,
                  l_meta = meta i, l_lastSeen = lastSeen i\<rparr>"

definition list_services :: "registry \<Rightarrow> string \<Rightarrow> listed list option" where
  "list_services r n =
     (if n = ''__proto__'' then None
      else (case map_of (services r) n of
              None \<Rightarrow> None
            | Some m \<Rightarrow> Some (map (\<lambda>(k, i). listed_of i) m)))"

text \<open>
  \<^verbatim>\<open>cleanupExpired()\<close>: both loops run over a snapshot (\<^verbatim>\<open>Array.from\<close>) of the entries;
  the last argument is the \<^verbatim>\<open>Map\<close> being mutated. \<open>now\<close> is \<^verbatim>\<open>this._now()\<close>.
\<close>

fun cleanup_instances :: "int \<Rightarrow> int \<Rightarrow> imap \<Rightarrow> imap \<Rightarrow> imap" where
  "cleanup_instances now t [] m = m"
| "cleanup_instances now t ((iid, inst) # es) m =
     cleanup_instances now t es (if (now - lastSeen inst) > t then AList.delete iid m else m)"

fun cleanup_services ::
  "int \<Rightarrow> int \<Rightarrow> (string \<times> imap) list \<Rightarrow> (string \<times> imap) list \<Rightarrow> (string \<times> imap) list" where
  "cleanup_services now t [] svcs = svcs"
| "cleanup_services now t ((n, m) # es) svcs =
     cleanup_services now t es (commit n (cleanup_instances now t m m) svcs)"

definition cleanupExpired :: "int \<Rightarrow> registry \<Rightarrow> registry" where
  "cleanupExpired now r = r\<lparr>services := cleanup_services now (ttl r) (services r) (services r)\<rparr>"

section \<open>The HTTP routes of the daemon\<close>

text \<open>
  A route answers with a status and a JSON object \<^verbatim>\<open>{ ok, ... }\<close>; \<^verbatim>\<open>res.json\<close> alone
  answers with status 200. The body of the request is \<^verbatim>\<open>req.body || {}\<close>.
\<close>

datatype payload = PInstance "Instance option" | PError string | POk

record response =
  status :: nat
  ok :: bool
  payload :: payload

definition body_of :: "obj option \<Rightarrow> obj" where
  "body_of req_body = (case req_body of None \<Rightarrow> [] | Some b \<Rightarrow> b)"

definition post_register :: "env \<Rightarrow> registry \<Rightarrow> obj option \<Rightarrow> response \<times> registry" where
  "post_register e r req_body =
     (case register e r (body_of req_body) of
        Inr (inst, r') \<Rightarrow> (\<lparr>status = 200, ok = True, payload = PInstance (Some inst)\<rparr>, r')
      | Inl (err, r') \<Rightarrow> (\<lparr>status = 400, ok = False, payload = PError (message err)\<rparr>, r'))"

definition post_heartbeat :: "int \<Rightarrow> registry \<Rightarrow> obj option \<Rightarrow> response \<times> registry" where
  "post_heartbeat now r req_body =
     (case heartbeat now r (body_of req_body) of
        Inr (inst, r') \<Rightarrow> (\<lparr>status = 200, ok = True, payload = PInstance inst\<rparr>, r')
      | Inl err \<Rightarrow> (\<lparr>status = 400, ok = False, payload = PError (message err)\<rparr>, r))"

definition post_unregister :: "registry \<Rightarrow> obj option \<Rightarrow> response \<times> registry" where
  "post_unregister r req_body =
     (case unregister r (body_of req_body) of
        Inr (done, r') \<Rightarrow> (\<lparr>status = 200, ok = done, payload = POk\<rparr>, r')
      | Inl err \<Rightarrow> (\<lparr>status = 400, ok = False, payload = PError (message err)\<rparr>, r))"

section \<open>The client's \<^verbatim>\<open>register\<close>\<close>

text \<open>
  The client checks its arguments before it looks for the daemon; what it then posts to
  \<^verbatim>\<open>/register\<close> is the object \<^verbatim>\<open>{ name, port, host, pid, id, meta }\<close>. The function gives the
  error thrown or the body posted.
\<close>

definition client_register :: "env \<Rightarrow> obj \<Rightarrow> error + obj" where
  "client_register e a =
     (let name = fld a ''name'';
          port = fld a ''port'';
          host = dflt (fld a ''host'') (JStr ''127.0.0.1'');
          pid = dflt (fld a ''pid'') JNull;
          id = dflt (fld a ''id'') JNull;
          meta = dflt (fld a ''meta'') (JRef (fresh e))
      in if \<not> truthy name \<or> \<not> is_string name then Inl (Error ''name required'')
         else if \<not> truthy port \<or> \<not> is_number port then Inl (Error ''port required as number'')
         else Inr [(''name'', name), (''port'', port), (''host'', host), (''pid'', pid),
                   (''id'', id), (''meta'', meta)])"

section \<open>The singleton guard of the daemon\<close>

text \<open>
  The discovery file is given by its content (\<open>None\<close> when there is no file, so that
  \<^verbatim>\<open>readFileSync\<close> throws). \<^verbatim>\<open>JSON.parse\<close> is a parameter \<open>parse\<close>, with \<open>None\<close> for a
  \<^verbatim>\<open>SyntaxError\<close>; what it returns is a primitive value or an object with its fields.
  The parameter \<open>kill0\<close> tells whether \<^verbatim>\<open>process.kill(pid, 0)\<close> returns without throwing.
\<close>

datatype json_doc = Prim jsval | Obj obj

fun doc_truthy :: "json_doc \<Rightarrow> bool" where
  "doc_truthy (Prim v) = truthy v"
| "doc_truthy (Obj fs) = True"

text \<open>Reading a property of a primitive value other than \<^verbatim>\<open>null\<close> gives \<^verbatim>\<open>undefined\<close>.\<close>

fun doc_fld :: "json_doc \<Rightarrow> string \<Rightarrow> jsval" where
  "doc_fld (Prim v) f = JUndefined"
| "doc_fld (Obj fs) f = fld fs f"

definition read_json :: "(string \<Rightarrow> json_doc option) \<Rightarrow> string option \<Rightarrow> json_doc option" where
  "read_json parse content = (case content of None \<Rightarrow> None | Some raw \<Rightarrow> parse raw)"

definition discoveryFileIsStale ::
  "(string \<Rightarrow> json_doc option) \<Rightarrow> (jsval \<Rightarrow> bool) \<Rightarrow> string option \<Rightarrow> bool" where
  "discoveryFileIsStale parse kill0 content =
     (case read_json parse content of
        None \<Rightarrow> True
      | Some info \<Rightarrow>
          if \<not> doc_truthy info \<or> \<not> truthy (doc_fld info ''pid'') then True
          else if kill0 (doc_fld info ''pid'') then False
          else True)"

text \<open>
  The guard at the head of \<^verbatim>\<open>main\<close>: \<open>Exit 1\<close> is \<^verbatim>\<open>process.exit(1)\<close>, \<open>Listen\<close> is going on
  to \<^verbatim>\<open>app.listen\<close>. Inside the \<^verbatim>\<open>try\<close> the file is read and parsed again, and the message
  \<^verbatim>\<open>`... ${info.host}:${info.port} pid=${info.pid}`\<close> is built before the exit: reading
  \<^verbatim>\<open>info.host\<close> throws on \<^verbatim>\<open>null\<close>, and each of the three conversions to a string can throw.
  The \<^verbatim>\<open>catch\<close> swallows whatever was thrown and the daemon goes on to listen.
\<close>

datatype startup = Exit nat | Listen

definition main_guard ::
  "env \<Rightarrow> (string \<Rightarrow> json_doc option) \<Rightarrow> (jsval \<Rightarrow> bool) \<Rightarrow> string option \<Rightarrow> startup" where
  "main_guard e parse kill0 content =
     (if \<not> discoveryFileIsStale parse kill0 content
      then (case read_json parse content of
              None \<Rightarrow> Listen
            | Some info \<Rightarrow>
                if info = Prim JNull \<or> info = Prim JUndefined then Listen
                else (case to_str e (doc_fld info ''host'') of
                        None \<Rightarrow> Listen
                      | Some h \<Rightarrow>
                          (case to_str e (doc_fld info ''port'') of
                             None \<Rightarrow> Listen
                           | Some p \<Rightarrow>
                               (case to_str e (doc_fld info ''pid'') of
                                  None \<Rightarrow> Listen
                                | Some q \<Rightarrow> Exit 1))))
      else Listen)"

section \<open>Notions used to state the properties\<close>

text \<open>The instance stored under service \<open>n\<close> and id \<open>k\<close>, if any.\<close>

definition find_instance :: "registry \<Rightarrow> string \<Rightarrow> jsval \<Rightarrow> Instance option" where
  "find_instance r n k = (case map_of (services r) n of None \<Rightarrow> None | Some m \<Rightarrow> map_of m k)"

text \<open>The current instances of a service, in iteration order; none for an unknown name.\<close>

definition instances_of :: "registry \<Rightarrow> jsval \<Rightarrow> Instance list" where
  "instances_of r name = (case services_get r name of None \<Rightarrow> [] | Some m \<Rightarrow> map snd m)"

text \<open>The keys of a \<^verbatim>\<open>Map\<close> are pairwise different.\<close>

definition wf_registry :: "registry \<Rightarrow> bool" where
  "wf_registry r =
     (distinct (map fst (services r)) \<and> list_all (\<lambda>(n, m). distinct (map fst m)) (services r))"

text \<open>No service name maps to an empty set of instances.\<close>

definition no_empty_service :: "registry \<Rightarrow> bool" where
  "no_empty_service r = list_all (\<lambda>(n, m). m \<noteq> []) (services r)"

text \<open>An instance is expired at time \<open>now\<close> under time-to-live \<open>t\<close>.\<close>

definition expired :: "int \<Rightarrow> int \<Rightarrow> Instance \<Rightarrow> bool" where
  "expired now t i = (now - lastSeen i > t)"

text \<open>What the two checks of \<^verbatim>\<open>register\<close> let pass: a name that is a non-empty string and
  a port that is a number other than zero and \<^verbatim>\<open>NaN\<close>.\<close>

definition accepted :: "obj \<Rightarrow> bool" where
  "accepted b =
     ((\<exists>s. fld b ''name'' = JStr s \<and> s \<noteq> []) \<and> (\<exists>p. fld b ''port'' = JNum p \<and> p \<noteq> 0))"

text \<open>The test of the fallback loop of \<^verbatim>\<open>unregister\<close>, for a given \<open>host\<close> and \<open>port\<close>.\<close>

definition matches :: "jsval \<Rightarrow> jsval \<Rightarrow> Instance \<Rightarrow> bool" where
  "matches h p i = ((truthy h \<and> host i = h) \<or> (truthy p \<and> port i = p))"

text \<open>The directory without its expired instances and without the services left empty.\<close>

definition sweep :: "int \<Rightarrow> int \<Rightarrow> (string \<times> imap) list \<Rightarrow> (string \<times> imap) list" where
  "sweep now t svcs =
     filter (\<lambda>(n, m). m \<noteq> [])
       (map (\<lambda>(n, m). (n, filter (\<lambda>(k, i). \<not> expired now t i) m)) svcs)"

text \<open>No instance of the directory is expired at time \<open>now\<close>.\<close>

definition none_expired :: "int \<Rightarrow> registry \<Rightarrow> bool" where
  "none_expired now r =
     list_all (\<lambda>(n, m). list_all (\<lambda>(k, i). \<not> (now - lastSeen i > ttl r)) m) (services r)"

text \<open>The instance that a request naming \<open>name\<close> and \<open>id\<close> finds, if any.\<close>

definition lookup_instance :: "registry \<Rightarrow> jsval \<Rightarrow> jsval \<Rightarrow> Instance option" where
  "lookup_instance r name id' =
     (case services_get r name of None \<Rightarrow> None | Some m \<Rightarrow> map_of m id')"

text \<open>The entries (id and instance) of a service; none for an unknown name.\<close>

definition entries_of :: "registry \<Rightarrow> jsval \<Rightarrow> imap" where
  "entries_of r name = (case services_get r name of None \<Rightarrow> [] | Some m \<Rightarrow> m)"

text \<open>
  The states of the directory: those that the operations make from the empty one, also the
  state that a call leaves when it throws.
\<close>

inductive reachable :: "registry \<Rightarrow> bool" where
  init: "reachable (new_registry t)"
| reg: "reachable r \<Longrightarrow> register e r b = Inr (i, r') \<Longrightarrow> reachable r'"
| reg_failed: "reachable r \<Longrightarrow> register e r b = Inl (err, r') \<Longrightarrow> reachable r'"
| beat: "reachable r \<Longrightarrow> heartbeat now r b = Inr (io, r') \<Longrightarrow> reachable r'"
| unreg: "reachable r \<Longrightarrow> unregister r b = Inr (d, r') \<Longrightarrow> reachable r'"
| clean: "reachable r \<Longrightarrow> reachable (cleanupExpired now r)"

text \<open>The rendering of plain objects by a template literal.\<close>

definition plain_render :: "nat \<Rightarrow> string option" where
  "plain_render a = Some ''[object Object]''"

text \<open>
  The rendering in a heap where reference 7 is an object such as \<^verbatim>\<open>{"toString": null}\<close>,
  which does not convert to a string, and every other reference is a plain object.
\<close>

definition broken_render :: "nat \<Rightarrow> string option" where
  "broken_render a = (if a = 7 then None else Some ''[object Object]'')"

section \<open>Validation of a registration\<close>

lemma truthy_string_iff: "truthy v \<and> is_string v \<longleftrightarrow> (\<exists>s. v = JStr s \<and> s \<noteq> [])"
  by (cases v) auto

lemma truthy_number_iff: "truthy v \<and> is_number v \<longleftrightarrow> (\<exists>p. v = JNum p \<and> p \<noteq> 0)"
  by (cases v) auto

lemma accepted_iff:
  "accepted b \<longleftrightarrow>
     \<not> (\<not> truthy (fld b ''name'') \<or> \<not> is_string (fld b ''name'')) \<and>
     \<not> (\<not> truthy (fld b ''port'') \<or> \<not> is_number (fld b ''port''))"
  using truthy_string_iff[of "fld b ''name''"] truthy_number_iff[of "fld b ''port''"]
  by (auto simp: accepted_def)

lemma register_rejects:
  assumes "\<not> accepted b"
  shows "register e r b = Inl (Error ''name required'', r) \<or>
         register e r b = Inl (Error ''port required as number'', r)"
  using assms unfolding accepted_iff by (auto simp: register_def Let_def)

lemma register_Inr_accepted:
  assumes "register e r b = Inr (inst, r')"
  shows "accepted b"
proof (rule ccontr)
  assume "\<not> accepted b"
  from register_rejects[OF this, of e r] assms show False by auto
qed

lemma client_register_accepts:
  "isl (client_register e b) \<longleftrightarrow> \<not> accepted b"
  unfolding accepted_iff by (auto simp: client_register_def Let_def)

lemma map_of_ensureServiceMap_entries:
  "map_of (ensureServiceMap n (services r)) n = Some (entries_of r (JStr n))"
  by (auto simp: ensureServiceMap_def entries_of_def services_get_def map_add_def
      split: option.splits)

text \<open>What a call of \<open>register\<close> that returns an instance has stored.\<close>

lemma register_Inr:
  assumes "register e r b = Inr (inst, r')"
  shows "\<exists>n. fld b ''name'' = JStr n \<and> lastSeen inst = clock e \<and>
     r' = r\<lparr>services := AList.update n (AList.update (inst_id inst) inst (entries_of r (JStr n)))
                            (ensureServiceMap n (services r))\<rparr>"
proof -
  from register_Inr_accepted[OF assms] obtain n where n: "fld b ''name'' = JStr n"
    by (auto simp: accepted_def)
  from assms have "lastSeen inst = clock e \<and>
     r' = r\<lparr>services := AList.update n (AList.update (inst_id inst) inst (entries_of r (JStr n)))
                            (ensureServiceMap n (services r))\<rparr>"
    by (auto simp: register_def Let_def n map_of_ensureServiceMap_entries
        split: if_splits option.splits)
  with n show ?thesis by blast
qed

text \<open>What a call of \<open>register\<close> that throws leaves behind: the directory as it was, or the
  directory with a \<^verbatim>\<open>Map\<close> ensured for the name.\<close>

lemma register_Inl:
  assumes "register e r b = Inl (err, r')"
  shows "r' = r \<or> (\<exists>n. fld b ''name'' = JStr n \<and>
                       r' = r\<lparr>services := ensureServiceMap n (services r)\<rparr>)"
proof (cases "accepted b")
  case False
  from register_rejects[OF False, of e r] assms show ?thesis by auto
next
  case True
  then obtain n where n: "fld b ''name'' = JStr n" by (auto simp: accepted_def)
  from assms have "r' = r \<or> r' = r\<lparr>services := ensureServiceMap n (services r)\<rparr>"
    by (auto simp: register_def Let_def n split: if_splits option.splits)
  with n show ?thesis by blast
qed

text \<open>
  C1, as amended: \<open>register\<close> succeeds only when \<open>name\<close> is a non-empty string and \<open>port\<close> is a
  number other than zero and \<^verbatim>\<open>NaN\<close> (a negative port is accepted). For every input where
  \<open>name\<close> is empty, missing or not a string, or \<open>port\<close> is zero, \<^verbatim>\<open>NaN\<close>, missing or not a number,
  \<open>register\<close> fails with one of its two validation errors and the directory is unchanged; the
  route answers 400, and the client's \<open>register\<close> throws as well.
\<close>

theorem register_validation:
  "(\<forall>inst r'. register e r b = Inr (inst, r') \<longrightarrow>
      (\<exists>s. fld b ''name'' = JStr s \<and> s \<noteq> []) \<and> (\<exists>p. fld b ''port'' = JNum p \<and> p \<noteq> 0)) \<and>
   (\<not> ((\<exists>s. fld b ''name'' = JStr s \<and> s \<noteq> []) \<and> (\<exists>p. fld b ''port'' = JNum p \<and> p \<noteq> 0)) \<longrightarrow>
      (register e r b = Inl (Error ''name required'', r) \<or>
       register e r b = Inl (Error ''port required as number'', r)) \<and>
      (\<exists>msg. post_register e r (Some b) =
         (\<lparr>status = 400, ok = False, payload = PError msg\<rparr>, r)) \<and>
      isl (client_register e b))"
proof (intro conjI allI impI)
  fix inst r' assume "register e r b = Inr (inst, r')"
  from register_Inr_accepted[OF this]
  show "\<exists>s. fld b ''name'' = JStr s \<and> s \<noteq> []" and "\<exists>p. fld b ''port'' = JNum p \<and> p \<noteq> 0"
    by (simp_all add: accepted_def)
next
  assume "\<not> ((\<exists>s. fld b ''name'' = JStr s \<and> s \<noteq> []) \<and> (\<exists>p. fld b ''port'' = JNum p \<and> p \<noteq> 0))"
  then have na: "\<not> accepted b" by (simp add: accepted_def)
  have rj: "register e r b = Inl (Error ''name required'', r) \<or>
        register e r b = Inl (Error ''port required as number'', r)"
    by (rule register_rejects[OF na])
  show "register e r b = Inl (Error ''name required'', r) \<or>
        register e r b = Inl (Error ''port required as number'', r)" by (rule rj)
  show "\<exists>msg. post_register e r (Some b) =
         (\<lparr>status = 400, ok = False, payload = PError msg\<rparr>, r)"
    using rj by (auto simp: post_register_def body_of_def)
  show "isl (client_register e b)" using na by (simp add: client_register_accepts)
qed

theorem register_validation_witness:
  "register \<lparr>clock = 5, random = 7, number_str = show_int, render = plain_render, fresh = 0\<rparr> (new_registry 15000)
     [(''name'', JStr ''auth''), (''port'', JNum 3001), (''id'', JStr ''a1'')] =
     Inr (\<lparr>inst_id = JStr ''a1'', inst_name = ''auth'', host = JStr ''127.0.0.1'',
            port = JNum 3001, pid = JNull, meta = JRef 0, lastSeen = 5\<rparr>,
          \<lparr>services =
             [(''auth'',
               [(JStr ''a1'',
                 \<lparr>inst_id = JStr ''a1'', inst_name = ''auth'', host = JStr ''127.0.0.1'',
                    port = JNum 3001, pid = JNull, meta = JRef 0, lastSeen = 5\<rparr>)])],
           ttl = 15000\<rparr>) \<and>
   (\<exists>p. fld [(''name'', JStr ''auth''), (''port'', JNum 3001), (''id'', JStr ''a1'')] ''port'' =
          JNum p \<and> p \<noteq> 0) \<and>
   (\<exists>msg. post_register \<lparr>clock = 5, random = 7, number_str = show_int, render = plain_render, fresh = 0\<rparr> (new_registry 15000)
            (Some [(''name'', JStr ''auth''), (''port'', JNum 0)]) =
          (\<lparr>status = 400, ok = False, payload = PError msg\<rparr>, new_registry 15000)) \<and>
   isl (client_register \<lparr>clock = 5, random = 7, number_str = show_int, render = plain_render, fresh = 0\<rparr> [(''name'', JStr ''auth''), (''port'', JNum 0)])"
  (is "register ?e ?r ?b1 = Inr (?i, ?r1) \<and> ?P \<and> ?Q \<and> ?R")
proof -
  have rg: "register ?e ?r ?b1 = Inr (?i, ?r1)" by code_simp
  note ok = register_validation[where e = ?e and r = ?r and b = ?b1, THEN conjunct1,
      THEN spec, THEN spec, THEN mp, OF rg]
  have bad: "\<not> ((\<exists>s. fld [(''name'', JStr ''auth''), (''port'', JNum 0)] ''name'' = JStr s \<and> s \<noteq> []) \<and>
                (\<exists>p. fld [(''name'', JStr ''auth''), (''port'', JNum 0)] ''port'' = JNum p \<and> p \<noteq> 0))"
    by (simp add: fld_def)
  note no = register_validation[where e = ?e and r = ?r
      and b = "[(''name'', JStr ''auth''), (''port'', JNum 0)]", THEN conjunct2, THEN mp, OF bad]
  show ?thesis
    by (intro conjI rg ok[THEN conjunct2] no[THEN conjunct2, THEN conjunct1]
        no[THEN conjunct2, THEN conjunct2])
qed

text \<open>
  C1 as stated fails: the body \<^verbatim>\<open>{ name: 'a', port: -1 }\<close> has a negative port, and
  \<open>register\<close> stores an instance for it.
\<close>

theorem register_negative_port_counterexample:
  "register \<lparr>clock = 5, random = 7, number_str = show_int, render = plain_render, fresh = 0\<rparr> (new_registry 15000)
     [(''name'', JStr ''a''), (''port'', JNum (- 1))] =
   Inr (\<lparr>inst_id = JStr ''127.0.0.1:-1:7'', inst_name = ''a'', host = JStr ''127.0.0.1'',
          port = JNum (- 1), pid = JNull, meta = JRef 0, lastSeen = 5\<rparr>,
        \<lparr>services =
           [(''a'',
             [(JStr ''127.0.0.1:-1:7'',
               \<lparr>inst_id = JStr ''127.0.0.1:-1:7'', inst_name = ''a'', host = JStr ''127.0.0.1'',
                  port = JNum (- 1), pid = JNull, meta = JRef 0, lastSeen = 5\<rparr>)])],
         ttl = 15000\<rparr>)"
  by code_simp

section \<open>Resolution\<close>

lemma resolve_loop_None: "resolve_loop c xs = None \<longleftrightarrow> c = None \<and> xs = []"
  by (induction xs arbitrary: c) (auto split: option.splits)

lemma resolve_loop_Some_max:
  "resolve_loop (Some c) xs = Some i \<Longrightarrow>
     i \<in> set (c # xs) \<and> (\<forall>j \<in> set (c # xs). lastSeen j \<le> lastSeen i)"
proof (induction xs arbitrary: c)
  case Nil
  then show ?case by simp
next
  case (Cons x xs)
  show ?case
  proof (cases "lastSeen x > lastSeen c")
    case True
    with Cons.prems have "resolve_loop (Some x) xs = Some i" by simp
    from Cons.IH[OF this] True show ?thesis by auto
  next
    case False
    with Cons.prems have "resolve_loop (Some c) xs = Some i" by simp
    from Cons.IH[OF this] False show ?thesis by auto
  qed
qed

lemma resolve_loop_first_max:
  assumes "xs \<noteq> []"
  shows "\<exists>i. resolve_loop None xs = Some i \<and> i \<in> set xs \<and> (\<forall>j \<in> set xs. lastSeen j \<le> lastSeen i)"
proof -
  from assms obtain x ys where xs: "xs = x # ys" by (cases xs) auto
  have "resolve_loop (Some x) ys \<noteq> None" by (simp add: resolve_loop_None)
  then obtain i where i: "resolve_loop (Some x) ys = Some i" by blast
  from resolve_loop_Some_max[OF i] i show ?thesis by (simp add: xs)
qed

lemma resolve_cases:
  "resolve r name = (if instances_of r name = [] then None else resolve_loop None (instances_of r name))"
  by (simp add: resolve_def instances_of_def split: option.splits)

lemma resolve_chosen:
  assumes "instances_of r name \<noteq> []"
  shows "\<exists>c. resolve r name = Some c \<and> c \<in> set (instances_of r name) \<and>
             (\<forall>j \<in> set (instances_of r name). lastSeen j \<le> lastSeen c)"
proof -
  from resolve_loop_first_max[OF assms] obtain c where
    c: "resolve_loop None (instances_of r name) = Some c" "c \<in> set (instances_of r name)"
       "\<forall>j \<in> set (instances_of r name). lastSeen j \<le> lastSeen c" by blast
  have "resolve r name = Some c" using assms c(1) by (simp add: resolve_cases)
  with c(2,3) show ?thesis by blast
qed

lemma resolve_unique_max:
  assumes "i \<in> set (instances_of r name)"
    and "\<forall>j \<in> set (instances_of r name). j \<noteq> i \<longrightarrow> lastSeen j < lastSeen i"
  shows "resolve r name = Some i"
proof -
  from assms(1) have ne: "instances_of r name \<noteq> []" by auto
  from resolve_chosen[OF ne] obtain c where
    res: "resolve r name = Some c" and c: "c \<in> set (instances_of r name)"
    and mx: "\<forall>j \<in> set (instances_of r name). lastSeen j \<le> lastSeen c" by blast
  show ?thesis
  proof (cases "i = c")
    case True
    then show ?thesis using res by simp
  next
    case False
    have "c \<noteq> i \<longrightarrow> lastSeen c < lastSeen i" using assms(2) c by (rule bspec)
    moreover have "c \<noteq> i" using False by (rule not_sym)
    ultimately have "lastSeen c < lastSeen i" by (rule mp)
    moreover have "lastSeen i \<le> lastSeen c" using mx assms(1) by (rule bspec)
    ultimately show ?thesis by simp
  qed
qed

text \<open>
  C2: for every service name, \<open>resolve\<close> returns \<^verbatim>\<open>null\<close> exactly when the name has no
  registered instances; otherwise it returns one of the service's current instances, whose
  \<open>lastSeen\<close> is maximal among them; and an instance whose \<open>lastSeen\<close> is strictly greater
  than that of every other instance of the service is the one returned.
\<close>

theorem resolve_most_recent:
  "(resolve r name = None \<longleftrightarrow> instances_of r name = []) \<and>
   (\<forall>i. resolve r name = Some i \<longrightarrow>
        i \<in> set (instances_of r name) \<and> (\<forall>j \<in> set (instances_of r name). lastSeen j \<le> lastSeen i)) \<and>
   (\<forall>i. i \<in> set (instances_of r name) \<and>
        (\<forall>j \<in> set (instances_of r name). j \<noteq> i \<longrightarrow> lastSeen j < lastSeen i) \<longrightarrow>
        resolve r name = Some i)"
proof (cases "instances_of r name = []")
  case True
  then show ?thesis by (simp add: resolve_cases)
next
  case False
  from resolve_chosen[OF False] obtain c where
    res: "resolve r name = Some c" and c: "c \<in> set (instances_of r name)"
    and mx: "\<forall>j \<in> set (instances_of r name). lastSeen j \<le> lastSeen c" by blast
  have A: "resolve r name = None \<longleftrightarrow> instances_of r name = []"
    using res False by simp
  have B: "\<forall>i. resolve r name = Some i \<longrightarrow>
        i \<in> set (instances_of r name) \<and> (\<forall>j \<in> set (instances_of r name). lastSeen j \<le> lastSeen i)"
    using res c mx by simp
  have C: "\<forall>i. i \<in> set (instances_of r name) \<and>
        (\<forall>j \<in> set (instances_of r name). j \<noteq> i \<longrightarrow> lastSeen j < lastSeen i) \<longrightarrow>
        resolve r name = Some i"
    using resolve_unique_max by blast
  from A B C show ?thesis by blast
qed

theorem resolve_most_recent_witness:
  "instances_of
     \<lparr>services = [(''a'',
        [(JStr ''x'', \<lparr>inst_id = JStr ''x'', inst_name = ''a'', host = JStr ''127.0.0.1'',
                        port = JNum 100, pid = JNull, meta = JRef 0, lastSeen = 5\<rparr>),
         (JStr ''y'', \<lparr>inst_id = JStr ''y'', inst_name = ''a'', host = JStr ''127.0.0.1'',
                        port = JNum 200, pid = JNull, meta = JRef 1, lastSeen = 6\<rparr>)])],
      ttl = 15000\<rparr> (JStr ''a'') =
     [\<lparr>inst_id = JStr ''x'', inst_name = ''a'', host = JStr ''127.0.0.1'',
                        port = JNum 100, pid = JNull, meta = JRef 0, lastSeen = 5\<rparr>,
      \<lparr>inst_id = JStr ''y'', inst_name = ''a'', host = JStr ''127.0.0.1'',
                        port = JNum 200, pid = JNull, meta = JRef 1, lastSeen = 6\<rparr>] \<and>
   resolve
     \<lparr>services = [(''a'',
        [(JStr ''x'', \<lparr>inst_id = JStr ''x'', inst_name = ''a'', host = JStr ''127.0.0.1'',
                        port = JNum 100, pid = JNull, meta = JRef 0, lastSeen = 5\<rparr>),
         (JStr ''y'', \<lparr>inst_id = JStr ''y'', inst_name = ''a'', host = JStr ''127.0.0.1'',
                        port = JNum 200, pid = JNull, meta = JRef 1, lastSeen = 6\<rparr>)])],
      ttl = 15000\<rparr> (JStr ''a'') =
     Some \<lparr>inst_id = JStr ''y'', inst_name = ''a'', host = JStr ''127.0.0.1'',
                        port = JNum 200, pid = JNull, meta = JRef 1, lastSeen = 6\<rparr>"
  (is "instances_of ?r ?n = [?i1, ?i2] \<and> resolve ?r ?n = Some ?i2")
proof -
  have inst: "instances_of ?r ?n = [?i1, ?i2]"
    by (simp add: instances_of_def services_get_def)
  have "?i2 \<in> set (instances_of ?r ?n) \<and>
        (\<forall>j \<in> set (instances_of ?r ?n). j \<noteq> ?i2 \<longrightarrow> lastSeen j < lastSeen ?i2)"
    unfolding inst by simp
  with resolve_most_recent[of ?r ?n] have "resolve ?r ?n = Some ?i2" by blast
  with inst show ?thesis by simp
qed

section \<open>The loops as filters\<close>

lemma key_unique:
  "distinct (map fst m) \<Longrightarrow> (k, i) \<in> set m \<Longrightarrow> (k, j) \<in> set m \<Longrightarrow> i = j"
  by (rule eq_key_imp_eq_value)

lemma cleanup_instances_gen:
  "cleanup_instances now t es m =
     filter (\<lambda>(k, i). k \<notin> fst ` {e \<in> set es. expired now t (snd e)}) m"
proof (induction es arbitrary: m)
  case Nil
  show ?case by simp
next
  case (Cons e es)
  obtain iid inst where e: "e = (iid, inst)" by (cases e)
  have step: "cleanup_instances now t ((iid, inst) # es) m =
      cleanup_instances now t es (if expired now t inst then AList.delete iid m else m)"
    by (simp add: expired_def)
  have S: "fst ` {x \<in> set ((iid, inst) # es). expired now t (snd x)} =
      (if expired now t inst then insert iid (fst ` {x \<in> set es. expired now t (snd x)})
       else fst ` {x \<in> set es. expired now t (snd x)})"
    by force
  show ?case
    unfolding e step S
    by (auto simp add: Cons.IH AList.delete_eq intro!: filter_cong)
qed

lemma cleanup_instances_filter:
  assumes "distinct (map fst m)"
  shows "cleanup_instances now t m m = filter (\<lambda>(k, i). \<not> expired now t i) m"
  unfolding cleanup_instances_gen
proof (rule filter_cong[OF refl])
  fix x assume x: "x \<in> set m"
  obtain k i where ki: "x = (k, i)" by (cases x)
  have "k \<in> fst ` {e \<in> set m. expired now t (snd e)} \<longleftrightarrow> expired now t i"
  proof
    assume "k \<in> fst ` {e \<in> set m. expired now t (snd e)}"
    then obtain j where j: "(k, j) \<in> set m" "expired now t j" by auto
    from key_unique[OF assms j(1)] x ki have "j = i" by simp
    with j(2) show "expired now t i" by simp
  next
    assume "expired now t i"
    with x ki show "k \<in> fst ` {e \<in> set m. expired now t (snd e)}" by force
  qed
  then show "(case x of (k, i) \<Rightarrow> k \<notin> fst ` {e \<in> set m. expired now t (snd e)}) =
             (case x of (k, i) \<Rightarrow> \<not> expired now t i)"
    by (simp add: ki)
qed

lemma unregister_loop_gen:
  "unregister_loop h p es m =
     filter (\<lambda>(k, i). k \<notin> fst ` {e \<in> set es. matches h p (snd e)}) m"
proof (induction es arbitrary: m)
  case Nil
  show ?case by simp
next
  case (Cons e es)
  obtain iid inst where e: "e = (iid, inst)" by (cases e)
  have step: "unregister_loop h p ((iid, inst) # es) m =
      unregister_loop h p es (if matches h p inst then AList.delete iid m else m)"
    by (simp add: matches_def)
  have S: "fst ` {x \<in> set ((iid, inst) # es). matches h p (snd x)} =
      (if matches h p inst then insert iid (fst ` {x \<in> set es. matches h p (snd x)})
       else fst ` {x \<in> set es. matches h p (snd x)})"
    by force
  show ?case
    unfolding e step S
    by (auto simp add: Cons.IH AList.delete_eq intro!: filter_cong)
qed

lemma unregister_loop_filter:
  assumes "distinct (map fst m)"
  shows "unregister_loop h p m m = filter (\<lambda>(k, i). \<not> matches h p i) m"
  unfolding unregister_loop_gen
proof (rule filter_cong[OF refl])
  fix x assume x: "x \<in> set m"
  obtain k i where ki: "x = (k, i)" by (cases x)
  have "k \<in> fst ` {e \<in> set m. matches h p (snd e)} \<longleftrightarrow> matches h p i"
  proof
    assume "k \<in> fst ` {e \<in> set m. matches h p (snd e)}"
    then obtain j where j: "(k, j) \<in> set m" "matches h p j" by auto
    from key_unique[OF assms j(1)] x ki have "j = i" by simp
    with j(2) show "matches h p i" by simp
  next
    assume "matches h p i"
    with x ki show "k \<in> fst ` {e \<in> set m. matches h p (snd e)}" by force
  qed
  then show "(case x of (k, i) \<Rightarrow> k \<notin> fst ` {e \<in> set m. matches h p (snd e)}) =
             (case x of (k, i) \<Rightarrow> \<not> matches h p i)"
    by (simp add: ki)
qed

lemma map_of_filter_values:
  "distinct (map fst m) \<Longrightarrow>
   map_of (filter (\<lambda>(k, i). P i) m) k =
     (case map_of m k of None \<Rightarrow> None | Some i \<Rightarrow> if P i then Some i else None)"
proof (induction m)
  case Nil
  show ?case by simp
next
  case (Cons e m)
  obtain k' i' where e: "e = (k', i')" by (cases e)
  from Cons.prems have d: "distinct (map fst m)" and nin: "k' \<notin> fst ` set m" by (auto simp: e)
  have none: "map_of m k' = None" using nin by (simp add: map_of_eq_None_iff)
  show ?case
    using Cons.IH[OF d] none by (auto simp: e split: option.splits)
qed

lemma update_middle:
  "n \<notin> fst ` set ps \<Longrightarrow> AList.update n v (ps @ (n, m) # es) = ps @ (n, v) # es"
  by (induction ps) auto

lemma delete_middle:
  "n \<notin> fst ` set ps \<Longrightarrow> n \<notin> fst ` set es \<Longrightarrow> AList.delete n (ps @ (n, m) # es) = ps @ es"
  by (induction ps) auto

lemma cleanup_services_gen:
  "distinct (map fst (ps @ es)) \<Longrightarrow>
   cleanup_services now t es (ps @ es) =
     ps @ filter (\<lambda>(n, m). m \<noteq> []) (map (\<lambda>(n, m). (n, cleanup_instances now t m m)) es)"
proof (induction es arbitrary: ps)
  case Nil
  show ?case by simp
next
  case (Cons e es)
  obtain n m where e: "e = (n, m)" by (cases e)
  let ?m' = "cleanup_instances now t m m"
  from Cons.prems have nps: "n \<notin> fst ` set ps" and nes: "n \<notin> fst ` set es"
    and d: "distinct (map fst (ps @ es))" by (auto simp: e)
  show ?case
  proof (cases "?m' = []")
    case True
    have "commit n ?m' (ps @ e # es) = ps @ es"
      using True by (simp add: commit_def e delete_middle[OF nps nes])
    then show ?thesis using Cons.IH[OF d] True by (simp add: e)
  next
    case False
    have c: "commit n ?m' (ps @ (n, m) # es) = (ps @ [(n, ?m')]) @ es"
      using False by (simp add: commit_def update_middle[OF nps])
    have d': "distinct (map fst ((ps @ [(n, ?m')]) @ es))" using Cons.prems by (auto simp: e)
    show ?thesis using Cons.IH[OF d'] False unfolding e cleanup_services.simps c by simp
  qed
qed

lemma cleanupExpired_sweep:
  assumes "wf_registry r"
  shows "services (cleanupExpired now r) = sweep now (ttl r) (services r)"
proof -
  from assms have d: "distinct (map fst (services r))"
    and di: "\<And>n m. (n, m) \<in> set (services r) \<Longrightarrow> distinct (map fst m)"
    by (auto simp: wf_registry_def list_all_iff)
  have eq: "map (\<lambda>(n, m). (n, cleanup_instances now (ttl r) m m)) (services r) =
        map (\<lambda>(n, m). (n, filter (\<lambda>(k, i). \<not> expired now (ttl r) i) m)) (services r)"
    by (rule map_cong[OF refl]) (auto simp: cleanup_instances_filter di)
  have "cleanup_services now (ttl r) (services r) (services r) =
        filter (\<lambda>(n, m). m \<noteq> [])
          (map (\<lambda>(n, m). (n, cleanup_instances now (ttl r) m m)) (services r))"
    using cleanup_services_gen[of "[]" "services r" now "ttl r"] d by simp
  then show ?thesis
    unfolding eq by (simp add: cleanupExpired_def sweep_def)
qed

lemma map_of_sweep:
  "distinct (map fst svcs) \<Longrightarrow>
   map_of (sweep now t svcs) n =
     (case map_of svcs n of
        None \<Rightarrow> None
      | Some m \<Rightarrow> if filter (\<lambda>(k, i). \<not> expired now t i) m = [] then None
                  else Some (filter (\<lambda>(k, i). \<not> expired now t i) m))"
proof (induction svcs)
  case Nil
  show ?case by (simp add: sweep_def)
next
  case (Cons e svcs)
  obtain n' m' where e: "e = (n', m')" by (cases e)
  from Cons.prems have d: "distinct (map fst svcs)" and nin: "n' \<notin> fst ` set svcs" by (auto simp: e)
  have none: "map_of svcs n' = None" using nin by (simp add: map_of_eq_None_iff)
  have sw: "sweep now t (e # svcs) =
     (if filter (\<lambda>(k, i). \<not> expired now t i) m' = [] then sweep now t svcs
      else (n', filter (\<lambda>(k, i). \<not> expired now t i) m') # sweep now t svcs)"
    by (simp add: sweep_def e)
  show ?case
    using Cons.IH[OF d] none unfolding sw by (auto simp: e)
qed

lemma sweep_idem: "sweep now t (sweep now t svcs) = sweep now t svcs"
  by (induction svcs) (auto simp: sweep_def)

lemma sweep_noop:
  "list_all (\<lambda>(n, m). m \<noteq> [] \<and> list_all (\<lambda>(k, i). \<not> expired now t i) m) svcs \<Longrightarrow>
   sweep now t svcs = svcs"
proof (induction svcs)
  case Nil
  show ?case by (simp add: sweep_def)
next
  case (Cons e svcs)
  obtain n m where e: "e = (n, m)" by (cases e)
  from Cons.prems have m: "m \<noteq> []" and ne: "list_all (\<lambda>(k, i). \<not> expired now t i) m"
    and rest: "list_all (\<lambda>(n, m). m \<noteq> [] \<and> list_all (\<lambda>(k, i). \<not> expired now t i) m) svcs"
    by (auto simp: e)
  have f: "filter (\<lambda>(k, i). \<not> expired now t i) m = m"
    using ne by (simp add: filter_id_conv list_all_iff)
  have "sweep now t (e # svcs) = (n, m) # sweep now t svcs"
    using m f by (simp add: sweep_def e)
  with Cons.IH[OF rest] show ?case by (simp add: e)
qed

lemma wf_sweep:
  assumes "wf_registry r"
  shows "wf_registry (r\<lparr>services := sweep now t (services r)\<rparr>)"
proof -
  from assms have d: "distinct (map fst (services r))"
    and di: "\<And>n m. (n, m) \<in> set (services r) \<Longrightarrow> distinct (map fst m)"
    by (auto simp: wf_registry_def list_all_iff)
  have "map fst (sweep now t (services r)) =
        map fst (filter (\<lambda>(n, m). filter (\<lambda>(k, i). \<not> expired now t i) m \<noteq> []) (services r))"
    by (induction "services r" arbitrary: r) (auto simp: sweep_def filter_map comp_def split_def)
  then have "distinct (map fst (sweep now t (services r)))"
    using d by (simp add: distinct_map_filter)
  moreover have "distinct (map fst m)" if "(n, m) \<in> set (sweep now t (services r))" for n m
    using that di by (auto simp: sweep_def distinct_map_filter)
  ultimately show ?thesis by (auto simp: wf_registry_def list_all_iff)
qed

section \<open>Eviction\<close>

lemma cleanupExpired_eq:
  assumes "wf_registry r"
  shows "cleanupExpired now r = r\<lparr>services := sweep now (ttl r) (services r)\<rparr>"
  using cleanupExpired_sweep[OF assms, of now] by (simp add: cleanupExpired_def)

lemma wf_inner:
  "wf_registry r \<Longrightarrow> map_of (services r) n = Some m \<Longrightarrow> distinct (map fst m)"
  by (auto simp: wf_registry_def list_all_iff dest!: map_of_SomeD)

lemma find_instance_cleanupExpired:
  assumes "wf_registry r"
  shows "find_instance (cleanupExpired now r) n k =
     (case find_instance r n k of
        None \<Rightarrow> None
      | Some i \<Rightarrow> if now - lastSeen i > ttl r then None else Some i)"
proof (cases "map_of (services r) n")
  case None
  then show ?thesis
    using assms
    by (simp add: cleanupExpired_eq find_instance_def map_of_sweep wf_registry_def)
next
  case (Some m)
  have d: "distinct (map fst m)" by (rule wf_inner[OF assms Some])
  let ?F = "filter (\<lambda>(k, i). \<not> expired now (ttl r) i) m"
  have "find_instance (cleanupExpired now r) n k = map_of ?F k"
    using assms Some
    by (simp add: cleanupExpired_eq find_instance_def map_of_sweep wf_registry_def)
  also have "\<dots> = (case map_of m k of None \<Rightarrow> None
                     | Some i \<Rightarrow> if \<not> expired now (ttl r) i then Some i else None)"
    by (rule map_of_filter_values[OF d])
  finally show ?thesis
    using Some by (simp add: find_instance_def expired_def split: option.splits)
qed

text \<open>
  C4: for every directory state, \<open>cleanupExpired\<close> run at time \<open>now\<close> removes an instance if
  and only if \<open>now - lastSeen > ttl\<close>: what is stored under a name and an id afterwards is what
  was stored before, unless that instance had \<open>now - lastSeen > ttl\<close>. An instance with
  \<open>now - lastSeen = ttl\<close> is retained, one with \<open>now - lastSeen > ttl\<close> is evicted.
  The hypothesis \<open>wf_registry\<close> says that the keys of each \<^verbatim>\<open>Map\<close> are pairwise different; it
  holds of every state that the operations reach (lemma \<open>reachable_invariants\<close>).
\<close>

theorem cleanupExpired_removes_iff:
  assumes "wf_registry r"
  shows "find_instance (cleanupExpired now r) n k =
           (case find_instance r n k of
              None \<Rightarrow> None
            | Some i \<Rightarrow> if now - lastSeen i > ttl r then None else Some i) \<and>
         (\<forall>i. find_instance r n k = Some i \<and> now - lastSeen i = ttl r \<longrightarrow>
              find_instance (cleanupExpired now r) n k = Some i) \<and>
         (\<forall>i. find_instance r n k = Some i \<and> now - lastSeen i > ttl r \<longrightarrow>
              find_instance (cleanupExpired now r) n k = None) \<and>
         ttl (cleanupExpired now r) = ttl r"
  using find_instance_cleanupExpired[OF assms, of now n k]
  by (simp add: cleanupExpired_def)

theorem cleanupExpired_removes_iff_witness:
  "wf_registry
     \<lparr>services = [(''a'',
        [(JStr ''x'', \<lparr>inst_id = JStr ''x'', inst_name = ''a'', host = JStr ''127.0.0.1'',
                        port = JNum 100, pid = JNull, meta = JNull, lastSeen = 0\<rparr>),
         (JStr ''y'', \<lparr>inst_id = JStr ''y'', inst_name = ''a'', host = JStr ''127.0.0.1'',
                        port = JNum 200, pid = JNull, meta = JNull, lastSeen = 1\<rparr>)])],
      ttl = 15\<rparr> \<and>
   find_instance (cleanupExpired 16
     \<lparr>services = [(''a'',
        [(JStr ''x'', \<lparr>inst_id = JStr ''x'', inst_name = ''a'', host = JStr ''127.0.0.1'',
                        port = JNum 100, pid = JNull, meta = JNull, lastSeen = 0\<rparr>),
         (JStr ''y'', \<lparr>inst_id = JStr ''y'', inst_name = ''a'', host = JStr ''127.0.0.1'',
                        port = JNum 200, pid = JNull, meta = JNull, lastSeen = 1\<rparr>)])],
      ttl = 15\<rparr>) ''a'' (JStr ''x'') = None \<and>
   find_instance (cleanupExpired 16
     \<lparr>services = [(''a'',
        [(JStr ''x'', \<lparr>inst_id = JStr ''x'', inst_name = ''a'', host = JStr ''127.0.0.1'',
                        port = JNum 100, pid = JNull, meta = JNull, lastSeen = 0\<rparr>),
         (JStr ''y'', \<lparr>inst_id = JStr ''y'', inst_name = ''a'', host = JStr ''127.0.0.1'',
                        port = JNum 200, pid = JNull, meta = JNull, lastSeen = 1\<rparr>)])],
      ttl = 15\<rparr>) ''a'' (JStr ''y'') =
     Some \<lparr>inst_id = JStr ''y'', inst_name = ''a'', host = JStr ''127.0.0.1'',
            port = JNum 200, pid = JNull, meta = JNull, lastSeen = 1\<rparr>"
  (is "wf_registry ?r \<and> find_instance (cleanupExpired 16 ?r) ''a'' ?x = None \<and>
       find_instance (cleanupExpired 16 ?r) ''a'' ?y = Some ?iy")
proof -
  have wf: "wf_registry ?r" by (simp add: wf_registry_def)
  have x: "find_instance (cleanupExpired 16 ?r) ''a'' ?x = None"
    using cleanupExpired_removes_iff[OF wf, of 16 "''a''" ?x] by (simp add: find_instance_def)
  have y: "find_instance (cleanupExpired 16 ?r) ''a'' ?y = Some ?iy"
    using cleanupExpired_removes_iff[OF wf, of 16 "''a''" ?y] by (simp add: find_instance_def)
  from wf x y show ?thesis by blast
qed

text \<open>
  C9, as amended: \<open>cleanupExpired\<close> is idempotent: for every directory state and fixed time
  \<open>now\<close>, running it twice gives the state that running it once gives; and on a state with no
  expired instance and no service stored with an empty set of instances it changes nothing.
  The hypothesis \<open>wf_registry\<close> says that the keys of each \<^verbatim>\<open>Map\<close> are pairwise different.
\<close>

theorem cleanupExpired_idempotent:
  assumes "wf_registry r"
  shows "cleanupExpired now (cleanupExpired now r) = cleanupExpired now r \<and>
         (no_empty_service r \<and> none_expired now r \<longrightarrow> cleanupExpired now r = r)"
proof -
  let ?r' = "r\<lparr>services := sweep now (ttl r) (services r)\<rparr>"
  have r': "cleanupExpired now r = ?r'" by (rule cleanupExpired_eq[OF assms])
  have wf': "wf_registry ?r'" by (rule wf_sweep[OF assms])
  have "cleanupExpired now ?r' = ?r'"
    unfolding cleanupExpired_eq[OF wf'] by (simp add: sweep_idem)
  then have A: "cleanupExpired now (cleanupExpired now r) = cleanupExpired now r"
    unfolding r' .
  have B: "cleanupExpired now r = r" if "no_empty_service r" "none_expired now r"
  proof -
    have "list_all (\<lambda>(n, m). m \<noteq> [] \<and> list_all (\<lambda>(k, i). \<not> expired now (ttl r) i) m) (services r)"
      using that by (auto simp: no_empty_service_def none_expired_def expired_def list_all_iff)
    then have "sweep now (ttl r) (services r) = services r" by (rule sweep_noop)
    then show ?thesis unfolding r' by simp
  qed
  from A B show ?thesis by blast
qed

theorem cleanupExpired_idempotent_witness:
  "wf_registry
     \<lparr>services = [(''a'',
        [(JStr ''x'', \<lparr>inst_id = JStr ''x'', inst_name = ''a'', host = JStr ''127.0.0.1'',
                        port = JNum 100, pid = JNull, meta = JNull, lastSeen = 0\<rparr>),
         (JStr ''y'', \<lparr>inst_id = JStr ''y'', inst_name = ''a'', host = JStr ''127.0.0.1'',
                        port = JNum 200, pid = JNull, meta = JNull, lastSeen = 1\<rparr>)])],
      ttl = 15\<rparr> \<and>
   cleanupExpired 16 (cleanupExpired 16
     \<lparr>services = [(''a'',
        [(JStr ''x'', \<lparr>inst_id = JStr ''x'', inst_name = ''a'', host = JStr ''127.0.0.1'',
                        port = JNum 100, pid = JNull, meta = JNull, lastSeen = 0\<rparr>),
         (JStr ''y'', \<lparr>inst_id = JStr ''y'', inst_name = ''a'', host = JStr ''127.0.0.1'',
                        port = JNum 200, pid = JNull, meta = JNull, lastSeen = 1\<rparr>)])],
      ttl = 15\<rparr>) =
   cleanupExpired 16
     \<lparr>services = [(''a'',
        [(JStr ''x'', \<lparr>inst_id = JStr ''x'', inst_name = ''a'', host = JStr ''127.0.0.1'',
                        port = JNum 100, pid = JNull, meta = JNull, lastSeen = 0\<rparr>),
         (JStr ''y'', \<lparr>inst_id = JStr ''y'', inst_name = ''a'', host = JStr ''127.0.0.1'',
                        port = JNum 200, pid = JNull, meta = JNull, lastSeen = 1\<rparr>)])],
      ttl = 15\<rparr>"
  (is "wf_registry ?r \<and> cleanupExpired 16 (cleanupExpired 16 ?r) = cleanupExpired 16 ?r")
proof -
  have wf: "wf_registry ?r" by (simp add: wf_registry_def)
  from cleanupExpired_idempotent[OF wf, of 16] wf show ?thesis by blast
qed

text \<open>
  C9 as stated fails on a state without expired instances: a \<open>register\<close> whose \<open>host\<close> does not
  convert to a string throws after the \<^verbatim>\<open>Map\<close> of the new service \<open>ghost\<close> is stored; in the
  state it leaves nothing is expired, and \<open>cleanupExpired\<close> deletes the empty service.
\<close>

theorem cleanupExpired_noop_counterexample:
  "register \<lparr>clock = 5, random = 7, number_str = show_int, render = broken_render, fresh = 0\<rparr>
     (new_registry 15000) [(''name'', JStr ''ghost''), (''port'', JNum 1), (''host'', JRef 7)] =
     Inl (TypeError ''Cannot convert object to primitive value'',
          \<lparr>services = [(''ghost'', [])], ttl = 15000\<rparr>) \<and>
   none_expired 5 \<lparr>services = [(''ghost'', [])], ttl = 15000\<rparr> \<and>
   cleanupExpired 5 \<lparr>services = [(''ghost'', [])], ttl = 15000\<rparr> =
     \<lparr>services = [], ttl = 15000\<rparr> \<and>
   cleanupExpired 5 \<lparr>services = [(''ghost'', [])], ttl = 15000\<rparr> \<noteq>
     \<lparr>services = [(''ghost'', [])], ttl = 15000\<rparr>"
  by code_simp

section \<open>The invariants of the directory\<close>

text \<open>
  The keys of the maps are pairwise different (\<open>wf_registry\<close>) in the empty directory and
  after every operation, also after a \<open>register\<close> that throws; hence in every reachable state.
  That no service is stored with an empty map (\<open>no_empty_service\<close>) is kept by every operation
  that returns, but not by a \<open>register\<close> that throws while it makes the id.
\<close>

lemma set_update_subset: "set (AList.update k v al) \<subseteq> insert (k, v) (set al)"
  by (induction al) auto

lemma update_ensureServiceMap:
  "set (AList.update n v (ensureServiceMap n svcs)) \<subseteq> insert (n, v) (set svcs)"
proof (cases "map_of svcs n")
  case None
  then have "n \<notin> fst ` set svcs" by (simp add: map_of_eq_None_iff)
  then have "AList.update n v (svcs @ [(n, [])]) = svcs @ [(n, v)]"
    by (rule update_middle)
  then show ?thesis using None by (auto simp: ensureServiceMap_def)
next
  case (Some m)
  then show ?thesis using set_update_subset[of n v svcs] by (simp add: ensureServiceMap_def)
qed

lemma set_commit_subset: "m \<noteq> [] \<Longrightarrow> set (commit n m svcs) \<subseteq> insert (n, m) (set svcs)"
  by (simp add: commit_def set_update_subset)

lemma set_commit_empty: "set (commit n [] svcs) \<subseteq> set svcs"
  by (auto simp: commit_def AList.delete_eq)

lemma commit_no_empty:
  assumes "list_all (\<lambda>(n, m). m \<noteq> []) svcs"
  shows "list_all (\<lambda>(n, m). m \<noteq> []) (commit n m svcs)"
proof (cases "m = []")
  case True
  then show ?thesis using assms set_commit_empty[of n svcs] by (auto simp: list_all_iff)
next
  case False
  then show ?thesis using assms set_commit_subset[OF False, of n svcs] by (auto simp: list_all_iff)
qed

lemma register_no_empty:
  assumes "no_empty_service r" and "register e r b = Inr (i, r')"
  shows "no_empty_service r'"
proof -
  from register_Inr[OF assms(2)] obtain n v where
    r': "services r' = AList.update n v (ensureServiceMap n (services r))"
    and v: "v \<noteq> []"
    by force
  show ?thesis
    using assms(1) v update_ensureServiceMap[of n v "services r"]
    unfolding no_empty_service_def r' list_all_iff by auto
qed

lemma heartbeat_no_empty:
  assumes "no_empty_service r" and "heartbeat now r b = Inr (io, r')"
  shows "no_empty_service r'"
proof (cases "r' = r")
  case True
  then show ?thesis using assms(1) by simp
next
  case False
  with assms(2) obtain n v where r': "services r' = AList.update n v (services r)" and v: "v \<noteq> []"
    by (auto simp: heartbeat_def Let_def split: if_splits option.splits)
  show ?thesis
    using assms(1) v set_update_subset[of n v "services r"]
    unfolding no_empty_service_def r' list_all_iff by auto
qed

lemma unregister_no_empty:
  assumes "no_empty_service r" and "unregister r b = Inr (d, r')"
  shows "no_empty_service r'"
proof (cases "r' = r")
  case True
  then show ?thesis using assms(1) by simp
next
  case False
  with assms(2) obtain n m where r': "services r' = commit n m (services r)"
    by (auto simp: unregister_def Let_def split: if_splits option.splits)
  show ?thesis
    using assms(1) unfolding no_empty_service_def r' by (rule commit_no_empty)
qed

lemma cleanup_services_no_empty:
  "list_all (\<lambda>(n, m). m \<noteq> []) svcs \<Longrightarrow>
   list_all (\<lambda>(n, m). m \<noteq> []) (cleanup_services now t es svcs)"
proof (induction es arbitrary: svcs)
  case Nil
  then show ?case by simp
next
  case (Cons e es)
  obtain n m where e: "e = (n, m)" by (cases e)
  show ?case unfolding e cleanup_services.simps
    by (rule Cons.IH) (rule commit_no_empty[OF Cons.prems])
qed

lemma cleanupExpired_no_empty:
  assumes "no_empty_service r"
  shows "no_empty_service (cleanupExpired now r)"
  using assms by (simp add: no_empty_service_def cleanupExpired_def cleanup_services_no_empty)

lemma listed_has_instances:
  assumes "no_empty_service r" and "list_services r n = Some xs"
  shows "xs \<noteq> []"
proof -
  from assms(2) obtain m where m: "map_of (services r) n = Some m"
    and xs: "xs = map (\<lambda>(k, i). listed_of i) m"
    by (auto simp: list_services_def split: if_splits option.splits)
  from m have "(n, m) \<in> set (services r)" by (rule map_of_SomeD)
  with assms(1) have "m \<noteq> []" by (auto simp: no_empty_service_def list_all_iff)
  then show ?thesis by (simp add: xs)
qed

lemma wf_registryI:
  assumes "distinct (map fst (services r))"
    and "\<And>n m. (n, m) \<in> set (services r) \<Longrightarrow> distinct (map fst m)"
  shows "wf_registry r"
  using assms by (auto simp: wf_registry_def list_all_iff)

lemma wf_names: "wf_registry r \<Longrightarrow> distinct (map fst (services r))"
  by (simp add: wf_registry_def)

lemma wf_entry: "wf_registry r \<Longrightarrow> (n, m) \<in> set (services r) \<Longrightarrow> distinct (map fst m)"
  by (auto simp: wf_registry_def list_all_iff)

lemma distinct_ensureServiceMap:
  "distinct (map fst svcs) \<Longrightarrow> distinct (map fst (ensureServiceMap n svcs))"
  by (auto simp: ensureServiceMap_def map_of_eq_None_iff)

lemma set_ensureServiceMap: "set (ensureServiceMap n svcs) \<subseteq> insert (n, []) (set svcs)"
  by (auto simp: ensureServiceMap_def)

lemma distinct_commit:
  "distinct (map fst svcs) \<Longrightarrow> distinct (map fst (commit n m svcs))"
  by (simp add: commit_def distinct_update distinct_delete)

lemma set_commit: "set (commit n m svcs) \<subseteq> insert (n, m) (set svcs)"
  using set_update_subset[of n m svcs] by (auto simp: commit_def AList.delete_eq)

lemma wf_update_service:
  assumes "wf_registry r" and "distinct (map fst m)"
    and "services r' = AList.update n m (services r)"
  shows "wf_registry r'"
proof (rule wf_registryI)
  show "distinct (map fst (services r'))"
    using wf_names[OF assms(1)] by (simp add: assms(3) distinct_update)
next
  fix n' m' assume "(n', m') \<in> set (services r')"
  then have "(n', m') = (n, m) \<or> (n', m') \<in> set (services r)"
    using set_update_subset[of n m "services r"] by (auto simp: assms(3))
  then show "distinct (map fst m')" using assms(2) wf_entry[OF assms(1)] by auto
qed

lemma wf_commit:
  assumes "wf_registry r" and "distinct (map fst m)"
    and "services r' = commit n m (services r)"
  shows "wf_registry r'"
proof (rule wf_registryI)
  show "distinct (map fst (services r'))"
    using wf_names[OF assms(1)] by (simp add: assms(3) distinct_commit)
next
  fix n' m' assume "(n', m') \<in> set (services r')"
  then have "(n', m') = (n, m) \<or> (n', m') \<in> set (services r)"
    using set_commit[of n m "services r"] by (auto simp: assms(3))
  then show "distinct (map fst m')" using assms(2) wf_entry[OF assms(1)] by auto
qed

lemma entries_of_cases:
  "entries_of r (JStr n) = [] \<or> (n, entries_of r (JStr n)) \<in> set (services r)"
  by (auto simp: entries_of_def services_get_def split: option.splits dest: map_of_SomeD)

lemma wf_ensureServiceMap:
  assumes "wf_registry r"
  shows "wf_registry (r\<lparr>services := ensureServiceMap n (services r)\<rparr>)"
proof (rule wf_registryI)
  show "distinct (map fst (services (r\<lparr>services := ensureServiceMap n (services r)\<rparr>)))"
    using wf_names[OF assms] by (simp add: distinct_ensureServiceMap)
next
  fix n' m' assume "(n', m') \<in> set (services (r\<lparr>services := ensureServiceMap n (services r)\<rparr>))"
  then have "m' = [] \<or> (n', m') \<in> set (services r)"
    using set_ensureServiceMap[of n "services r"] by auto
  then show "distinct (map fst m')" using wf_entry[OF assms] by auto
qed

lemma register_wf:
  assumes "wf_registry r" and "register e r b = Inr (i, r')"
  shows "wf_registry r'"
proof -
  from register_Inr[OF assms(2)] obtain n where
    r': "r' = r\<lparr>services := AList.update n (AList.update (inst_id i) i (entries_of r (JStr n)))
                            (ensureServiceMap n (services r))\<rparr>"
    by blast
  let ?r1 = "r\<lparr>services := ensureServiceMap n (services r)\<rparr>"
  have wf1: "wf_registry ?r1" by (rule wf_ensureServiceMap[OF assms(1)])
  have "distinct (map fst (entries_of r (JStr n)))"
    using entries_of_cases[of r n] wf_entry[OF assms(1)] by auto
  then have d: "distinct (map fst (AList.update (inst_id i) i (entries_of r (JStr n))))"
    by (rule distinct_update)
  show ?thesis
    by (rule wf_update_service[OF wf1 d]) (simp add: r')
qed

lemma register_failed_wf:
  assumes "wf_registry r" and "register e r b = Inl (err, r')"
  shows "wf_registry r'"
  using register_Inl[OF assms(2)] assms(1) wf_ensureServiceMap[OF assms(1)] by auto

lemma heartbeat_wf:
  assumes "wf_registry r" and "heartbeat now r b = Inr (io, r')"
  shows "wf_registry r'"
proof (cases "r' = r")
  case True
  then show ?thesis using assms(1) by simp
next
  case False
  with assms(2) obtain n m k v where m: "map_of (services r) n = Some m"
    and r': "services r' = AList.update n (AList.update k v m) (services r)"
    by (auto simp: heartbeat_def services_get_def Let_def split: if_splits option.splits jsval.splits)
  have "distinct (map fst m)" using wf_entry[OF assms(1) map_of_SomeD[OF m]] .
  then have "distinct (map fst (AList.update k v m))" by (rule distinct_update)
  then show ?thesis using r' by (rule wf_update_service[OF assms(1)])
qed

lemma distinct_unregister_loop:
  "distinct (map fst m) \<Longrightarrow> distinct (map fst (unregister_loop h p es m))"
  by (simp add: unregister_loop_gen distinct_map_filter)

lemma unregister_result:
  assumes "unregister r b = Inr (d, r')"
  shows "r' = r \<or>
    (\<exists>n m. map_of (services r) n = Some m \<and>
       services r' =
         commit n (if truthy (fld b ''id'') then AList.delete (fld b ''id'') m
                   else unregister_loop (fld b ''host'') (fld b ''port'') m m) (services r))"
proof -
  let ?name = "fld b ''name''"
  from assms have t: "truthy ?name"
    by (auto simp: unregister_def Let_def split: if_splits)
  show ?thesis
  proof (cases "services_get r ?name")
    case None
    with assms t have "r' = r" by (simp add: unregister_def Let_def)
    then show ?thesis by simp
  next
    case (Some m)
    then obtain n where n: "?name = JStr n" and m: "map_of (services r) n = Some m"
      by (auto simp: services_get_def split: jsval.splits)
    have "services r' =
         commit n (if truthy (fld b ''id'') then AList.delete (fld b ''id'') m
                   else unregister_loop (fld b ''host'') (fld b ''port'') m m) (services r)"
      using assms t Some n by (auto simp: unregister_def Let_def split: if_splits)
    with m show ?thesis by blast
  qed
qed

lemma unregister_wf:
  assumes "wf_registry r" and "unregister r b = Inr (d, r')"
  shows "wf_registry r'"
proof -
  from unregister_result[OF assms(2)] show ?thesis
  proof
    assume "r' = r"
    then show ?thesis using assms(1) by simp
  next
    assume "\<exists>n m. map_of (services r) n = Some m \<and>
       services r' =
         commit n (if truthy (fld b ''id'') then AList.delete (fld b ''id'') m
                   else unregister_loop (fld b ''host'') (fld b ''port'') m m) (services r)"
    then obtain n m where m: "map_of (services r) n = Some m"
      and r': "services r' =
         commit n (if truthy (fld b ''id'') then AList.delete (fld b ''id'') m
                   else unregister_loop (fld b ''host'') (fld b ''port'') m m) (services r)"
      by blast
    have dm: "distinct (map fst m)" using wf_entry[OF assms(1) map_of_SomeD[OF m]] .
    have "distinct (map fst (if truthy (fld b ''id'') then AList.delete (fld b ''id'') m
                   else unregister_loop (fld b ''host'') (fld b ''port'') m m))"
      using dm by (simp add: distinct_delete distinct_unregister_loop)
    then show ?thesis using r' by (rule wf_commit[OF assms(1)])
  qed
qed

lemma cleanupExpired_wf:
  assumes "wf_registry r"
  shows "wf_registry (cleanupExpired now r)"
  unfolding cleanupExpired_eq[OF assms] by (rule wf_sweep[OF assms])

lemma reachable_invariants:
  "reachable r \<Longrightarrow> wf_registry r"
proof (induction rule: reachable.induct)
  case (init t)
  show ?case by (simp add: wf_registry_def new_registry_def)
next
  case (reg r e b i r')
  then show ?case using register_wf by blast
next
  case (reg_failed r e b err r')
  then show ?case using register_failed_wf by blast
next
  case (beat r now b io r')
  then show ?case using heartbeat_wf by blast
next
  case (unreg r b d r')
  then show ?case using unregister_wf by blast
next
  case (clean r now)
  then show ?case using cleanupExpired_wf by blast
qed

text \<open>
  What the operations keep of \<open>no_empty_service\<close>: every call that returns keeps it, and then
  \<open>list\<close> reports no service with an empty array.
\<close>

lemma no_empty_service_kept:
  assumes "no_empty_service r"
  shows "register e r b = Inr (i, r1) \<Longrightarrow> no_empty_service r1"
    and "heartbeat now r b2 = Inr (io, r2) \<Longrightarrow> no_empty_service r2"
    and "unregister r b3 = Inr (d, r3) \<Longrightarrow> no_empty_service r3"
    and "no_empty_service (cleanupExpired now4 r)"
  using assms register_no_empty heartbeat_no_empty unregister_no_empty cleanupExpired_no_empty
  by blast+

text \<open>
  C5 fails on the code. The body \<^verbatim>\<open>{"name": "ghost", "port": 1, "host": {"toString": null}}\<close>
  passes both checks of \<open>register\<close>; \<^verbatim>\<open>_ensureServiceMap\<close> stores an empty \<^verbatim>\<open>Map\<close> for the new
  name, and then the template literal that makes the id throws a \<^verbatim>\<open>TypeError\<close>, since the host
  does not convert to a string. The route answers 400, and the service \<open>ghost\<close> stays in the
  directory with no instance: the invariant is broken and \<open>list\<close> reports \<open>ghost\<close> with an
  empty array, where \<open>unregister\<close> and \<open>cleanupExpired\<close> delete a service that they leave empty.
\<close>

theorem register_leaves_empty_service:
  "register \<lparr>clock = 5, random = 7, number_str = show_int, render = broken_render, fresh = 0\<rparr>
     (new_registry 15000) [(''name'', JStr ''ghost''), (''port'', JNum 1), (''host'', JRef 7)] =
     Inl (TypeError ''Cannot convert object to primitive value'',
          \<lparr>services = [(''ghost'', [])], ttl = 15000\<rparr>) \<and>
   post_register \<lparr>clock = 5, random = 7, number_str = show_int, render = broken_render, fresh = 0\<rparr>
     (new_registry 15000) (Some [(''name'', JStr ''ghost''), (''port'', JNum 1), (''host'', JRef 7)]) =
     (\<lparr>status = 400, ok = False, payload = PError ''Cannot convert object to primitive value''\<rparr>,
      \<lparr>services = [(''ghost'', [])], ttl = 15000\<rparr>) \<and>
   \<not> no_empty_service \<lparr>services = [(''ghost'', [])], ttl = 15000\<rparr> \<and>
   instances_of \<lparr>services = [(''ghost'', [])], ttl = 15000\<rparr> (JStr ''ghost'') = [] \<and>
   list_services \<lparr>services = [(''ghost'', [])], ttl = 15000\<rparr> ''ghost'' = Some []"
  by code_simp

theorem register_leaves_empty_service_witness:
  "\<not> no_empty_service
      (snd (projl (register \<lparr>clock = 5, random = 7, number_str = show_int, render = broken_render, fresh = 0\<rparr>
         (new_registry 15000) [(''name'', JStr ''ghost''), (''port'', JNum 1), (''host'', JRef 7)])))"
  using register_leaves_empty_service by simp

section \<open>Heartbeats\<close>

lemma heartbeat_malformed:
  assumes "\<not> truthy (fld b ''name'') \<or> \<not> truthy (fld b ''id'')"
  shows "heartbeat now r b = Inl (Error ''name and id required for heartbeat'')"
  using assms by (auto simp: heartbeat_def Let_def)

lemma heartbeat_unknown:
  assumes "truthy (fld b ''name'')" and "truthy (fld b ''id'')"
    and "lookup_instance r (fld b ''name'') (fld b ''id'') = None"
  shows "heartbeat now r b = Inr (None, r)"
  using assms by (auto simp: heartbeat_def lookup_instance_def Let_def split: option.splits)

lemma heartbeat_known:
  assumes "truthy (fld b ''name'')" and "truthy (fld b ''id'')"
    and "fld b ''name'' = JStr n" and "map_of (services r) n = Some m"
    and "map_of m (fld b ''id'') = Some inst"
  shows "heartbeat now r b =
     Inr (Some (inst\<lparr>lastSeen := now\<rparr>),
          r\<lparr>services := AList.update n (AList.update (fld b ''id'') (inst\<lparr>lastSeen := now\<rparr>) m)
                           (services r)\<rparr>)"
  using assms by (simp add: heartbeat_def services_get_def Let_def)

lemma lookup_instance_Some:
  assumes "lookup_instance r name k = Some inst"
  shows "\<exists>n m. name = JStr n \<and> map_of (services r) n = Some m \<and> map_of m k = Some inst"
  using assms by (auto simp: lookup_instance_def services_get_def split: option.splits jsval.splits)

lemma update_keys_same:
  "map_of al k = Some v \<Longrightarrow> map fst (AList.update k v' al) = map fst al"
  by (induction al) (auto split: if_splits)

lemma update_shape_same:
  "map_of svcs n = Some m \<Longrightarrow> map fst m' = map fst m \<Longrightarrow>
   map (\<lambda>(n, m). (n, map fst m)) (AList.update n m' svcs) = map (\<lambda>(n, m). (n, map fst m)) svcs"
  by (induction svcs) (auto split: if_splits)

lemma find_instance_update:
  assumes "map_of (services r) n = Some m"
  shows "find_instance (r\<lparr>services := AList.update n (AList.update k v m) (services r)\<rparr>) n' k' =
           (if n' = n \<and> k' = k then Some v else find_instance r n' k')"
  using assms by (simp add: find_instance_def update_conv')

text \<open>
  C6: for every \<open>heartbeat\<close> whose \<open>name\<close> and \<open>id\<close> are non-empty: if the name or the id is
  unknown the result is \<^verbatim>\<open>null\<close> and the directory is unchanged; if the instance exists, the
  instance returned and stored is the old one with only \<open>lastSeen\<close> set to the current time
  (its \<open>id\<close>, \<open>name\<close>, \<open>host\<close>, \<open>port\<close>, \<open>pid\<close> and \<open>meta\<close> are unchanged), and every other
  instance and service, the order of the entries and the time-to-live are unchanged.
\<close>

theorem heartbeat_frame:
  assumes "truthy (fld b ''name'')" and "truthy (fld b ''id'')"
  shows "case lookup_instance r (fld b ''name'') (fld b ''id'') of
           None \<Rightarrow> heartbeat now r b = Inr (None, r)
         | Some inst \<Rightarrow>
             (\<exists>inst' r'. heartbeat now r b = Inr (Some inst', r') \<and>
                 inst' = inst\<lparr>lastSeen := now\<rparr> \<and>
                 inst_id inst' = inst_id inst \<and> inst_name inst' = inst_name inst \<and>
                 host inst' = host inst \<and> port inst' = port inst \<and>
                 pid inst' = pid inst \<and> meta inst' = meta inst \<and>
                 ttl r' = ttl r \<and>
                 map (\<lambda>(n, m). (n, map fst m)) (services r') =
                   map (\<lambda>(n, m). (n, map fst m)) (services r) \<and>
                 (\<forall>n k. find_instance r' n k =
                    (if JStr n = fld b ''name'' \<and> k = fld b ''id'' then Some inst'
                     else find_instance r n k)))"
proof (cases "lookup_instance r (fld b ''name'') (fld b ''id'')")
  case None
  then show ?thesis using heartbeat_unknown[OF assms None] by simp
next
  case (Some inst)
  from lookup_instance_Some[OF Some] obtain n m where
    n: "fld b ''name'' = JStr n" and m: "map_of (services r) n = Some m"
    and k: "map_of m (fld b ''id'') = Some inst" by blast
  let ?inst' = "inst\<lparr>lastSeen := now\<rparr>"
  let ?r' = "r\<lparr>services := AList.update n (AList.update (fld b ''id'') ?inst' m) (services r)\<rparr>"
  have hb: "heartbeat now r b = Inr (Some ?inst', ?r')"
    by (rule heartbeat_known[OF assms n m k])
  have shape: "map (\<lambda>(n, m). (n, map fst m)) (services ?r') =
                   map (\<lambda>(n, m). (n, map fst m)) (services r)"
    using update_shape_same[OF m update_keys_same[OF k]] by simp
  have fi: "\<forall>n' k'. find_instance ?r' n' k' =
                    (if JStr n' = fld b ''name'' \<and> k' = fld b ''id'' then Some ?inst'
                     else find_instance r n' k')"
    using find_instance_update[OF m] by (simp add: n)
  have "\<exists>inst' r'. heartbeat now r b = Inr (Some inst', r') \<and>
                 inst' = inst\<lparr>lastSeen := now\<rparr> \<and>
                 inst_id inst' = inst_id inst \<and> inst_name inst' = inst_name inst \<and>
                 host inst' = host inst \<and> port inst' = port inst \<and>
                 pid inst' = pid inst \<and> meta inst' = meta inst \<and>
                 ttl r' = ttl r \<and>
                 map (\<lambda>(n, m). (n, map fst m)) (services r') =
                   map (\<lambda>(n, m). (n, map fst m)) (services r) \<and>
                 (\<forall>n k. find_instance r' n k =
                    (if JStr n = fld b ''name'' \<and> k = fld b ''id'' then Some inst'
                     else find_instance r n k))"
    apply (rule exI[of _ ?inst'])
    apply (rule exI[of _ ?r'])
    apply (intro conjI hb shape fi)
    apply simp_all
    done
  then show ?thesis by (simp add: Some)
qed

theorem heartbeat_frame_witness:
  "\<exists>r'. heartbeat 20
       \<lparr>services = [(''a'',
        [(JStr ''x'', \<lparr>inst_id = JStr ''x'', inst_name = ''a'', host = JStr ''127.0.0.1'',
                        port = JNum 100, pid = JNull, meta = JNull, lastSeen = 0\<rparr>),
         (JStr ''y'', \<lparr>inst_id = JStr ''y'', inst_name = ''a'', host = JStr ''127.0.0.1'',
                        port = JNum 200, pid = JNull, meta = JNull, lastSeen = 1\<rparr>)])],
      ttl = 15\<rparr>
       [(''name'', JStr ''a''), (''id'', JStr ''x'')] =
       Inr (Some \<lparr>inst_id = JStr ''x'', inst_name = ''a'', host = JStr ''127.0.0.1'',
                port = JNum 100, pid = JNull, meta = JNull, lastSeen = 20\<rparr>, r') \<and>
     find_instance r' ''a'' (JStr ''y'') =
       Some \<lparr>inst_id = JStr ''y'', inst_name = ''a'', host = JStr ''127.0.0.1'',
              port = JNum 200, pid = JNull, meta = JNull, lastSeen = 1\<rparr>"
  (is "\<exists>r'. heartbeat 20 ?r ?b = Inr (Some ?ix', r') \<and> find_instance r' ''a'' ?y = Some ?iy")
proof -
  have t1: "truthy (fld ?b ''name'')" and t2: "truthy (fld ?b ''id'')"
    by (simp_all add: fld_def)
  have lk: "lookup_instance ?r (fld ?b ''name'') (fld ?b ''id'') =
     Some \<lparr>inst_id = JStr ''x'', inst_name = ''a'', host = JStr ''127.0.0.1'',
                port = JNum 100, pid = JNull, meta = JNull, lastSeen = 0\<rparr>"
    by (simp add: lookup_instance_def services_get_def fld_def)
  from heartbeat_frame[OF t1 t2, where r = ?r and now = 20]
  obtain r' where hb: "heartbeat 20 ?r ?b = Inr (Some ?ix', r')"
    and fi: "\<forall>n k. find_instance r' n k =
                    (if JStr n = fld ?b ''name'' \<and> k = fld ?b ''id'' then Some ?ix'
                     else find_instance ?r n k)"
    unfolding lk by auto
  have "find_instance r' ''a'' ?y = find_instance ?r ''a'' ?y"
    by (simp add: fi fld_def)
  also have "\<dots> = Some ?iy" by (simp add: find_instance_def)
  finally show ?thesis using hb by blast
qed

text \<open>
  C10: \<open>heartbeat\<close> tells a malformed request from an unknown target. When \<open>name\<close> or \<open>id\<close> is
  missing or empty it raises an error, which the route answers with status 400 and
  \<^verbatim>\<open>{ ok: false, error }\<close>, and the directory is unchanged; the \<^verbatim>\<open>null\<close> result is produced
  exactly for a well-formed request that names an unknown service or instance id.
\<close>

theorem heartbeat_malformed_or_unknown:
  "(\<not> truthy (fld b ''name'') \<or> \<not> truthy (fld b ''id'') \<longrightarrow>
      heartbeat now r b = Inl (Error ''name and id required for heartbeat'') \<and>
      post_heartbeat now r (Some b) =
        (\<lparr>status = 400, ok = False,
          payload = PError ''name and id required for heartbeat''\<rparr>, r)) \<and>
   post_heartbeat now r None =
     (\<lparr>status = 400, ok = False, payload = PError ''name and id required for heartbeat''\<rparr>, r) \<and>
   (\<forall>r'. heartbeat now r b = Inr (None, r') \<longleftrightarrow>
      truthy (fld b ''name'') \<and> truthy (fld b ''id'') \<and>
      lookup_instance r (fld b ''name'') (fld b ''id'') = None \<and> r' = r)"
proof -
  have A: "heartbeat now r b = Inl (Error ''name and id required for heartbeat'') \<and>
      post_heartbeat now r (Some b) =
        (\<lparr>status = 400, ok = False,
          payload = PError ''name and id required for heartbeat''\<rparr>, r)"
    if "\<not> truthy (fld b ''name'') \<or> \<not> truthy (fld b ''id'')"
    using heartbeat_malformed[OF that, of now r]
    by (simp add: post_heartbeat_def body_of_def)
  have B: "post_heartbeat now r None =
     (\<lparr>status = 400, ok = False, payload = PError ''name and id required for heartbeat''\<rparr>, r)"
    by (simp add: post_heartbeat_def body_of_def heartbeat_def fld_def)
  have C: "heartbeat now r b = Inr (None, r') \<longleftrightarrow>
      truthy (fld b ''name'') \<and> truthy (fld b ''id'') \<and>
      lookup_instance r (fld b ''name'') (fld b ''id'') = None \<and> r' = r" for r'
  proof (cases "truthy (fld b ''name'') \<and> truthy (fld b ''id'')")
    case False
    then show ?thesis using heartbeat_malformed[of b now r] by auto
  next
    case True
    show ?thesis
    proof (cases "lookup_instance r (fld b ''name'') (fld b ''id'')")
      case None
      then show ?thesis using True heartbeat_unknown[of b r now] by auto
    next
      case (Some inst)
      from lookup_instance_Some[OF Some] obtain n m where
        n: "fld b ''name'' = JStr n" and m: "map_of (services r) n = Some m"
        and k: "map_of m (fld b ''id'') = Some inst" by blast
      from True have t1: "truthy (fld b ''name'')" and t2: "truthy (fld b ''id'')" by simp_all
      show ?thesis using heartbeat_known[OF t1 t2 n m k, of now] Some by simp
    qed
  qed
  from A B C show ?thesis by blast
qed

theorem heartbeat_malformed_or_unknown_witness:
  "heartbeat 20
     \<lparr>services = [(''a'',
        [(JStr ''x'', \<lparr>inst_id = JStr ''x'', inst_name = ''a'', host = JStr ''127.0.0.1'',
                        port = JNum 100, pid = JNull, meta = JNull, lastSeen = 0\<rparr>),
         (JStr ''y'', \<lparr>inst_id = JStr ''y'', inst_name = ''a'', host = JStr ''127.0.0.1'',
                        port = JNum 200, pid = JNull, meta = JNull, lastSeen = 1\<rparr>)])],
      ttl = 15\<rparr>
     [(''name'', JStr ''a'')] = Inl (Error ''name and id required for heartbeat'') \<and>
   post_heartbeat 20
     \<lparr>services = [(''a'',
        [(JStr ''x'', \<lparr>inst_id = JStr ''x'', inst_name = ''a'', host = JStr ''127.0.0.1'',
                        port = JNum 100, pid = JNull, meta = JNull, lastSeen = 0\<rparr>),
         (JStr ''y'', \<lparr>inst_id = JStr ''y'', inst_name = ''a'', host = JStr ''127.0.0.1'',
                        port = JNum 200, pid = JNull, meta = JNull, lastSeen = 1\<rparr>)])],
      ttl = 15\<rparr>
     (Some [(''name'', JStr ''a'')]) =
     (\<lparr>status = 400, ok = False, payload = PError ''name and id required for heartbeat''\<rparr>,
      \<lparr>services = [(''a'',
        [(JStr ''x'', \<lparr>inst_id = JStr ''x'', inst_name = ''a'', host = JStr ''127.0.0.1'',
                        port = JNum 100, pid = JNull, meta = JNull, lastSeen = 0\<rparr>),
         (JStr ''y'', \<lparr>inst_id = JStr ''y'', inst_name = ''a'', host = JStr ''127.0.0.1'',
                        port = JNum 200, pid = JNull, meta = JNull, lastSeen = 1\<rparr>)])],
      ttl = 15\<rparr>)"
  using heartbeat_malformed_or_unknown[where b = "[(''name'', JStr ''a'')]" and now = 20
      and r = "\<lparr>services = [(''a'',
        [(JStr ''x'', \<lparr>inst_id = JStr ''x'', inst_name = ''a'', host = JStr ''127.0.0.1'',
                        port = JNum 100, pid = JNull, meta = JNull, lastSeen = 0\<rparr>),
         (JStr ''y'', \<lparr>inst_id = JStr ''y'', inst_name = ''a'', host = JStr ''127.0.0.1'',
                        port = JNum 200, pid = JNull, meta = JNull, lastSeen = 1\<rparr>)])],
      ttl = 15\<rparr>"]
  by (simp add: fld_def)

section \<open>Unregistration by address\<close>

lemma find_instance_commit:
  "find_instance (r\<lparr>services := commit n m' (services r)\<rparr>) n' k =
     (if n' = n then map_of m' k else find_instance r n' k)"
  by (simp add: find_instance_def commit_def update_conv' delete_conv')

lemma services_get_commit:
  "services_get (r\<lparr>services := commit n m' (services r)\<rparr>) (JStr n) =
     (if m' = [] then None else Some m')"
  by (simp add: services_get_def commit_def update_conv' delete_conv')

lemma unregister_fallback:
  assumes "truthy (fld b ''name'')" and "\<not> truthy (fld b ''id'')"
    and "services_get r (fld b ''name'') = Some m"
  shows "unregister r b =
     Inr (True, r\<lparr>services := commit (str_of (fld b ''name''))
                     (unregister_loop (fld b ''host'') (fld b ''port'') m m) (services r)\<rparr>)"
  using assms by (simp add: unregister_def Let_def)

lemma services_get_Some:
  "services_get r name = Some m \<Longrightarrow> \<exists>n. name = JStr n \<and> map_of (services r) n = Some m"
  by (auto simp: services_get_def split: jsval.splits)

lemma map_snd_filter_values:
  "map snd (filter (\<lambda>(k, i). P i) m) = filter P (map snd m)"
  by (induction m) auto

text \<open>
  C7: for every \<open>unregister\<close> of a service that exists, with \<open>id\<close> omitted (or empty), exactly
  those instances are removed for which a host was given (a non-empty value, the test of
  the code being \<^verbatim>\<open>host && ...\<close>) and the instance's host equals it, or a port was given
  and the instance's port equals it. Instances that match neither are retained, in their
  order, other services are untouched, and the call returns \<^verbatim>\<open>true\<close>. The witness removes
  two instances at once. The hypothesis \<open>wf_registry\<close> holds of every state that the
  operations reach (lemma \<open>reachable_invariants\<close>).
\<close>

theorem unregister_by_address:
  assumes "wf_registry r" and "truthy (fld b ''name'')" and "\<not> truthy (fld b ''id'')"
    and "services_get r (fld b ''name'') = Some m"
  shows "\<exists>r'. unregister r b = Inr (True, r') \<and> ttl r' = ttl r \<and>
     (\<forall>n k. find_instance r' n k =
        (if JStr n = fld b ''name''
         then (case map_of m k of
                 None \<Rightarrow> None
               | Some i \<Rightarrow>
                   if (truthy (fld b ''host'') \<and> host i = fld b ''host'') \<or>
                      (truthy (fld b ''port'') \<and> port i = fld b ''port'')
                   then None else Some i)
         else find_instance r n k)) \<and>
     instances_of r' (fld b ''name'') =
       filter (\<lambda>i. \<not> ((truthy (fld b ''host'') \<and> host i = fld b ''host'') \<or>
                       (truthy (fld b ''port'') \<and> port i = fld b ''port''))) (map snd m)"
proof -
  let ?h = "fld b ''host''" and ?p = "fld b ''port''"
  from services_get_Some[OF assms(4)] obtain n where
    n: "fld b ''name'' = JStr n" and m: "map_of (services r) n = Some m" by blast
  have dm: "distinct (map fst m)" using wf_entry[OF assms(1) map_of_SomeD[OF m]] .
  let ?m' = "filter (\<lambda>(k, i). \<not> matches ?h ?p i) m"
  let ?r' = "r\<lparr>services := commit n ?m' (services r)\<rparr>"
  have un: "unregister r b = Inr (True, ?r')"
    using unregister_fallback[OF assms(2,3,4)] by (simp add: n unregister_loop_filter[OF dm])
  have fi: "find_instance ?r' n' k =
        (if JStr n' = fld b ''name''
         then (case map_of m k of
                 None \<Rightarrow> None
               | Some i \<Rightarrow>
                   if (truthy ?h \<and> host i = ?h) \<or> (truthy ?p \<and> port i = ?p)
                   then None else Some i)
         else find_instance r n' k)" for n' k
    by (simp add: find_instance_commit n map_of_filter_values[OF dm] matches_def
        split: option.splits)
  have "instances_of ?r' (JStr n) = map snd ?m'"
    by (simp add: instances_of_def services_get_commit)
  also have "\<dots> = filter (\<lambda>i. \<not> matches ?h ?p i) (map snd m)"
    by (rule map_snd_filter_values)
  finally have io: "instances_of ?r' (fld b ''name'') =
       filter (\<lambda>i. \<not> ((truthy ?h \<and> host i = ?h) \<or> (truthy ?p \<and> port i = ?p))) (map snd m)"
    unfolding matches_def n .
  show ?thesis
    apply (rule exI[of _ ?r'])
    apply (intro conjI allI un fi io)
    apply simp
    done
qed

theorem unregister_by_address_witness:
  "\<exists>r'. unregister
       \<lparr>services = [(''a'',
        [(JStr ''x'', \<lparr>inst_id = JStr ''x'', inst_name = ''a'', host = JStr ''10.0.0.1'',
            port = JNum 100, pid = JNull, meta = JNull, lastSeen = 0\<rparr>),
         (JStr ''y'', \<lparr>inst_id = JStr ''y'', inst_name = ''a'', host = JStr ''10.0.0.1'',
            port = JNum 200, pid = JNull, meta = JNull, lastSeen = 1\<rparr>),
         (JStr ''z'', \<lparr>inst_id = JStr ''z'', inst_name = ''a'', host = JStr ''10.0.0.2'',
            port = JNum 300, pid = JNull, meta = JNull, lastSeen = 2\<rparr>)])],
      ttl = 15\<rparr>
       [(''name'', JStr ''a''), (''host'', JStr ''10.0.0.1'')] = Inr (True, r') \<and>
     instances_of r' (JStr ''a'') =
       [\<lparr>inst_id = JStr ''z'', inst_name = ''a'', host = JStr ''10.0.0.2'',
            port = JNum 300, pid = JNull, meta = JNull, lastSeen = 2\<rparr>]"
  (is "\<exists>r'. unregister ?r ?b = Inr (True, r') \<and> instances_of r' (JStr ''a'') = [?iz]")
proof -
  have wf: "wf_registry ?r" by (simp add: wf_registry_def)
  have t1: "truthy (fld ?b ''name'')" and t2: "\<not> truthy (fld ?b ''id'')"
    by (simp_all add: fld_def)
  have sg: "services_get ?r (fld ?b ''name'') = Some (snd (hd (services ?r)))"
    by (simp add: services_get_def fld_def)
  from unregister_by_address[OF wf t1 t2 sg]
  obtain r' where un: "unregister ?r ?b = Inr (True, r')"
    and io: "instances_of r' (fld ?b ''name'') =
       filter (\<lambda>i. \<not> ((truthy (fld ?b ''host'') \<and> host i = fld ?b ''host'') \<or>
                       (truthy (fld ?b ''port'') \<and> port i = fld ?b ''port'')))
         (map snd (snd (hd (services ?r))))"
    by blast
  have "instances_of r' (JStr ''a'') = [?iz]"
    using io by (simp add: fld_def)
  with un show ?thesis by blast
qed

section \<open>Resolution after registration\<close>

lemma update_mem: "(k, v) \<in> set (AList.update k v al)"
  by (induction al) auto

lemma set_update_distinct:
  "distinct (map fst al) \<Longrightarrow> (k', v') \<in> set (AList.update k v al) \<Longrightarrow>
   (k' = k \<and> v' = v) \<or> (k' \<noteq> k \<and> (k', v') \<in> set al)"
  by (induction al) (force split: if_splits)+

lemma register_result:
  assumes "register e r b = Inr (inst, r')"
  shows "\<exists>n. fld b ''name'' = JStr n \<and> lastSeen inst = clock e \<and>
     services_get r' (JStr n) = Some (AList.update (inst_id inst) inst (entries_of r (JStr n)))"
proof -
  from register_Inr[OF assms] obtain n where n: "fld b ''name'' = JStr n"
    and ls: "lastSeen inst = clock e"
    and r': "r' = r\<lparr>services := AList.update n (AList.update (inst_id inst) inst (entries_of r (JStr n)))
                            (ensureServiceMap n (services r))\<rparr>"
    by blast
  have "services_get r' (JStr n) = Some (AList.update (inst_id inst) inst (entries_of r (JStr n)))"
    by (simp add: r' services_get_def update_conv')
  with n ls show ?thesis by blast
qed

lemma distinct_entries_of: "wf_registry r \<Longrightarrow> distinct (map fst (entries_of r name))"
  by (auto simp: entries_of_def split: option.splits dest!: services_get_Some
      dest: wf_entry[OF _ map_of_SomeD])

text \<open>
  C3, as amended: for every valid registration into a directory state in which every
  instance stored under the same name and another id has a \<open>lastSeen\<close> strictly earlier than
  the time of the registration, \<open>resolve(name)\<close> immediately afterwards returns the instance
  just registered, so one whose \<open>id\<close> is the id just registered. The hypothesis
  \<open>wf_registry\<close> holds of every state that the operations reach (lemma
  \<open>reachable_invariants\<close>).
\<close>

theorem resolve_after_register:
  assumes "wf_registry r" and "register e r b = Inr (inst, r')"
    and "\<forall>(k, j) \<in> set (entries_of r (fld b ''name'')). k \<noteq> inst_id inst \<longrightarrow> lastSeen j < clock e"
  shows "\<exists>i. resolve r' (fld b ''name'') = Some i \<and> inst_id i = inst_id inst \<and> i = inst"
proof -
  from register_result[OF assms(2)] obtain n where n: "fld b ''name'' = JStr n"
    and ls: "lastSeen inst = clock e"
    and sg: "services_get r' (JStr n) = Some (AList.update (inst_id inst) inst (entries_of r (JStr n)))"
    by blast
  let ?m = "entries_of r (JStr n)"
  let ?m' = "AList.update (inst_id inst) inst ?m"
  have dm: "distinct (map fst ?m)" by (rule distinct_entries_of[OF assms(1)])
  have io: "instances_of r' (JStr n) = map snd ?m'" by (simp add: instances_of_def sg)
  have mem: "inst \<in> set (instances_of r' (JStr n))"
    unfolding io using update_mem[of "inst_id inst" inst ?m] by force
  have older: "\<forall>j \<in> set (instances_of r' (JStr n)). j \<noteq> inst \<longrightarrow> lastSeen j < lastSeen inst"
  proof (intro ballI impI)
    fix j assume j: "j \<in> set (instances_of r' (JStr n))" and ne: "j \<noteq> inst"
    from j obtain k where "(k, j) \<in> set ?m'" unfolding io by auto
    from set_update_distinct[OF dm this] ne have "k \<noteq> inst_id inst" and "(k, j) \<in> set ?m" by auto
    with assms(3) show "lastSeen j < lastSeen inst" unfolding n ls by auto
  qed
  have "resolve r' (JStr n) = Some inst" by (rule resolve_unique_max[OF mem older])
  then show ?thesis by (simp add: n)
qed

theorem resolve_after_register_witness:
  "register \<lparr>clock = 6, random = 8, number_str = show_int, render = plain_render, fresh = 1\<rparr>
     \<lparr>services = [(''a'',
        [(JStr ''x'', \<lparr>inst_id = JStr ''x'', inst_name = ''a'', host = JStr ''127.0.0.1'',
            port = JNum 100, pid = JNull, meta = JRef 0, lastSeen = 5\<rparr>)])],
      ttl = 15000\<rparr>
     [(''name'', JStr ''a''), (''port'', JNum 200), (''id'', JStr ''y'')] =
     Inr (\<lparr>inst_id = JStr ''y'', inst_name = ''a'', host = JStr ''127.0.0.1'',
            port = JNum 200, pid = JNull, meta = JRef 1, lastSeen = 6\<rparr>,
          \<lparr>services = [(''a'',
        [(JStr ''x'', \<lparr>inst_id = JStr ''x'', inst_name = ''a'', host = JStr ''127.0.0.1'',
            port = JNum 100, pid = JNull, meta = JRef 0, lastSeen = 5\<rparr>),
         (JStr ''y'', \<lparr>inst_id = JStr ''y'', inst_name = ''a'', host = JStr ''127.0.0.1'',
            port = JNum 200, pid = JNull, meta = JRef 1, lastSeen = 6\<rparr>)])],
      ttl = 15000\<rparr>) \<and>
   resolve
     \<lparr>services = [(''a'',
        [(JStr ''x'', \<lparr>inst_id = JStr ''x'', inst_name = ''a'', host = JStr ''127.0.0.1'',
            port = JNum 100, pid = JNull, meta = JRef 0, lastSeen = 5\<rparr>),
         (JStr ''y'', \<lparr>inst_id = JStr ''y'', inst_name = ''a'', host = JStr ''127.0.0.1'',
            port = JNum 200, pid = JNull, meta = JRef 1, lastSeen = 6\<rparr>)])],
      ttl = 15000\<rparr> (JStr ''a'') =
     Some \<lparr>inst_id = JStr ''y'', inst_name = ''a'', host = JStr ''127.0.0.1'',
            port = JNum 200, pid = JNull, meta = JRef 1, lastSeen = 6\<rparr>"
  (is "register ?e ?r ?b = Inr (?iy, ?r') \<and> resolve ?r' (JStr ''a'') = Some ?iy")
proof -
  have wf: "wf_registry ?r" by (simp add: wf_registry_def)
  have rg: "register ?e ?r ?b = Inr (?iy, ?r')" by code_simp
  have older: "\<forall>(k, j) \<in> set (entries_of ?r (fld ?b ''name'')).
                 k \<noteq> inst_id ?iy \<longrightarrow> lastSeen j < clock ?e"
    by (simp add: entries_of_def services_get_def fld_def)
  from resolve_after_register[OF wf rg older]
  have "resolve ?r' (JStr ''a'') = Some ?iy" by (simp add: fld_def)
  with rg show ?thesis by blast
qed

text \<open>
  C3 as stated fails: \<^verbatim>\<open>{ name: 'a', port: 100, id: 'x' }\<close> and then
  \<^verbatim>\<open>{ name: 'a', port: 200, id: 'y' }\<close> are registered in the same millisecond
  (\<^verbatim>\<open>Date.now()\<close> is 5 both times); \<open>resolve\<close> replaces its choice only on a strictly greater
  \<open>lastSeen\<close>, so right after the second registration it still returns the instance \<open>x\<close>.
\<close>

theorem resolve_after_register_counterexample:
  "register \<lparr>clock = 5, random = 7, number_str = show_int, render = plain_render, fresh = 0\<rparr> (new_registry 15000)
     [(''name'', JStr ''a''), (''port'', JNum 100), (''id'', JStr ''x'')] =
     Inr (\<lparr>inst_id = JStr ''x'', inst_name = ''a'', host = JStr ''127.0.0.1'',
            port = JNum 100, pid = JNull, meta = JRef 0, lastSeen = 5\<rparr>,
          \<lparr>services = [(''a'',
        [(JStr ''x'', \<lparr>inst_id = JStr ''x'', inst_name = ''a'', host = JStr ''127.0.0.1'',
            port = JNum 100, pid = JNull, meta = JRef 0, lastSeen = 5\<rparr>)])],
      ttl = 15000\<rparr>) \<and>
   register \<lparr>clock = 5, random = 8, number_str = show_int, render = plain_render, fresh = 1\<rparr>
     \<lparr>services = [(''a'',
        [(JStr ''x'', \<lparr>inst_id = JStr ''x'', inst_name = ''a'', host = JStr ''127.0.0.1'',
            port = JNum 100, pid = JNull, meta = JRef 0, lastSeen = 5\<rparr>)])],
      ttl = 15000\<rparr>
     [(''name'', JStr ''a''), (''port'', JNum 200), (''id'', JStr ''y'')] =
     Inr (\<lparr>inst_id = JStr ''y'', inst_name = ''a'', host = JStr ''127.0.0.1'',
            port = JNum 200, pid = JNull, meta = JRef 1, lastSeen = 5\<rparr>,
          \<lparr>services = [(''a'',
        [(JStr ''x'', \<lparr>inst_id = JStr ''x'', inst_name = ''a'', host = JStr ''127.0.0.1'',
            port = JNum 100, pid = JNull, meta = JRef 0, lastSeen = 5\<rparr>),
         (JStr ''y'', \<lparr>inst_id = JStr ''y'', inst_name = ''a'', host = JStr ''127.0.0.1'',
            port = JNum 200, pid = JNull, meta = JRef 1, lastSeen = 5\<rparr>)])],
      ttl = 15000\<rparr>) \<and>
   resolve
     \<lparr>services = [(''a'',
        [(JStr ''x'', \<lparr>inst_id = JStr ''x'', inst_name = ''a'', host = JStr ''127.0.0.1'',
            port = JNum 100, pid = JNull, meta = JRef 0, lastSeen = 5\<rparr>),
         (JStr ''y'', \<lparr>inst_id = JStr ''y'', inst_name = ''a'', host = JStr ''127.0.0.1'',
            port = JNum 200, pid = JNull, meta = JRef 1, lastSeen = 5\<rparr>)])],
      ttl = 15000\<rparr> (JStr ''a'') =
     Some \<lparr>inst_id = JStr ''x'', inst_name = ''a'', host = JStr ''127.0.0.1'',
            port = JNum 100, pid = JNull, meta = JRef 0, lastSeen = 5\<rparr> \<and>
   JStr ''x'' \<noteq> JStr ''y''"
  by code_simp

section \<open>The singleton guard\<close>

lemma doc_fld_truthy:
  "truthy (doc_fld info f) \<Longrightarrow> \<exists>fs. info = Obj fs \<and> truthy (fld fs f)"
  by (cases info) auto

lemma discoveryFileIsStale_iff:
  "\<not> discoveryFileIsStale parse kill0 content \<longleftrightarrow>
     (\<exists>raw fs. content = Some raw \<and> parse raw = Some (Obj fs) \<and>
        truthy (fld fs ''pid'') \<and> kill0 (fld fs ''pid''))"
proof (cases "read_json parse content")
  case None
  then show ?thesis
    by (auto simp: discoveryFileIsStale_def read_json_def split: option.splits)
next
  case (Some info)
  then obtain raw where raw: "content = Some raw" "parse raw = Some info"
    by (auto simp: read_json_def split: option.splits)
  show ?thesis
  proof (cases info)
    case (Prim v)
    then show ?thesis using Some raw by (simp add: discoveryFileIsStale_def)
  next
    case (Obj fs)
    then show ?thesis using Some raw by (auto simp: discoveryFileIsStale_def)
  qed
qed

text \<open>
  When the guard exits: the record is present, parses to an object with a pid that the probe
  finds alive, and its \<open>host\<close>, \<open>port\<close> and \<open>pid\<close> convert to strings for the message.
\<close>

lemma main_guard_exits_iff:
  "main_guard e parse kill0 content =
     (if (\<exists>raw fs. content = Some raw \<and> parse raw = Some (Obj fs) \<and>
            truthy (fld fs ''pid'') \<and> kill0 (fld fs ''pid'') \<and>
            to_str e (fld fs ''host'') \<noteq> None \<and> to_str e (fld fs ''port'') \<noteq> None \<and>
            to_str e (fld fs ''pid'') \<noteq> None)
      then Exit 1 else Listen)"
proof (cases "discoveryFileIsStale parse kill0 content")
  case True
  then show ?thesis using discoveryFileIsStale_iff[of parse kill0 content]
    by (auto simp: main_guard_def)
next
  case False
  with discoveryFileIsStale_iff[of parse kill0 content] obtain raw fs where
    "content = Some raw" "parse raw = Some (Obj fs)" "truthy (fld fs ''pid'')"
    "kill0 (fld fs ''pid'')" by blast
  then show ?thesis using False
    by (auto simp: main_guard_def read_json_def split: option.splits)
qed



end
